theory Spec2Isabelle
  imports Complex_Main "HOL-Library.Log_Nat"
begin

section \<open>The Lucas-Kanade tracker of optical\_flow\_tracker.py\<close>

text \<open>
  The class \<open>Tracker\<close> keeps a list of tracks, each a Python list of points. Tracks are
  mutable objects: \<open>update_tracks\<close> appends to and deletes from a track in place and then
  rebinds \<open>self.tracks\<close> to a new list of the surviving objects. The model therefore keeps
  the track objects in a store (\<open>heap\<close>, addressed by index; a new object is allocated at
  the end) and \<open>tracks\<close> is a list of addresses, so that what happens to an object that
  leaves the live list can still be stated.

  Coordinates are finite \<open>float32\<close> values in the source. They are taken as the real
  numbers they denote. The one arithmetic operation of the program on them, the
  subtraction of \<open>update_tracks\<close>, rounds; it is a component of the environment.

  What the program gets from numpy and OpenCV is not part of it and is a parameter of every
  operation: the environment \<open>env\<close>, the estimator \<open>lk\<close>
  (\<open>cv2.calcOpticalFlowPyrLK\<close>) and the detector \<open>gftt\<close>
  (\<open>cv2.goodFeaturesToTrack\<close>). An image is a value of an arbitrary type \<open>'img\<close>.
  The estimator and the detector are taken to return. The call \<open>cv2.circle(vis, (x, y), ...)\<close>
  inside the loop of \<open>update_tracks\<close> is given float32 coordinates, which some builds of
  OpenCV convert and others reject with an exception; the environment says which. The
  other drawing, window and keyboard calls get integer arguments, do not touch the tracker
  and are left out.
\<close>

subsection \<open>Data\<close>

type_synonym point = "real \<times> real"
type_synonym track = "point list"
type_synonym ref = nat

datatype error = AttributeError | IndexError | ValueError | ZeroDivisionError | CvError

text \<open>
  The environment: the float32 subtraction of numpy (an infinite result is any real of
  absolute value 1 or more: only the comparison with 1 reads it), the platform's result of
  converting a float outside the int32 range to \<open>int32\<close>, and whether \<open>cv2.circle\<close>
  returns when its centre is a pair of float32 values.
\<close>

record env =
  np_float32_sub :: "real \<Rightarrow> real \<Rightarrow> real"
  np_int32_overflow :: "real \<Rightarrow> int"
  cv2_circle_accepts :: "point \<Rightarrow> bool"

record lk_params =
  winSize :: "nat \<times> nat"
  maxLevel :: nat
  criteria :: "nat \<times> nat \<times> real"

record feature_params =
  maxCorners :: nat
  qualityLevel :: real
  minDistance :: real
  blockSize :: nat

text \<open>\<open>cv2.TERM_CRITERIA_COUNT\<close> is 1 and \<open>cv2.TERM_CRITERIA_EPS\<close> is 2; their bitwise or is 3.\<close>

definition LK_PARAMS :: lk_params where
  "LK_PARAMS = \<lparr>winSize = (15, 15), maxLevel = 2, criteria = (3, 10, 3 / 100)\<rparr>"

definition FEATURE_PARAMS :: feature_params where
  "FEATURE_PARAMS = \<lparr>maxCorners = 500, qualityLevel = 3 / 10, minDistance = 7, blockSize = 7\<rparr>"

text \<open>
  The mask handed to the corner detector is an image of the frame's shape filled with 255
  on which filled circles are drawn. It is represented by the list of the circles drawn on
  it, in drawing order.
\<close>

datatype draw = Circle (centre: "int \<times> int") (radius: nat) (colour: nat)
type_synonym mask = "draw list"

text \<open>
  \<open>lk img_a img_b points params\<close> returns the new points, the status flags and the
  errors; \<open>gftt image mask params\<close> returns \<open>None\<close> when it finds no corner.
\<close>

type_synonym 'img flow =
  "'img \<Rightarrow> 'img \<Rightarrow> point list \<Rightarrow> lk_params \<Rightarrow> point list \<times> bool list \<times> real list"
type_synonym 'img detector =
  "'img \<Rightarrow> mask \<Rightarrow> feature_params \<Rightarrow> point list option"

record 'img tracker =
  track_len :: nat
  detect_interval :: nat
  tracks :: "ref list"
  frame_idx :: nat
  prev_gray :: "'img option"
  heap :: "track list"

text \<open>
  An operation returns the new state, or the exception it raises together with the state
  the tracker is left in.
\<close>

type_synonym 'img outcome = "(error \<times> 'img tracker) + 'img tracker"

text \<open>
  \<open>__init__\<close> does not assign \<open>prev_gray\<close>: reading it before the first iteration of
  \<open>run\<close> has ended raises AttributeError.
\<close>

definition Tracker_init :: "'img tracker" where
  "Tracker_init =
     \<lparr>track_len = 10, detect_interval = 5, tracks = [], frame_idx = 0,
      prev_gray = None, heap = []\<rparr>"

subsection \<open>Array helpers\<close>

text \<open>\<open>[track[-1] for track in self.tracks]\<close>: indexing an empty track raises IndexError.\<close>

fun newest :: "track list \<Rightarrow> ref list \<Rightarrow> error + point list" where
  "newest h [] = Inr []"
| "newest h (r # rs) =
     (if h ! r = [] then Inl IndexError
      else (case newest h rs of
              Inl e \<Rightarrow> Inl e
            | Inr ps \<Rightarrow> Inr (last (h ! r) # ps)))"

text \<open>
  Elementwise operation on two arrays of shapes (n, 1, 2) and (k, 1, 2) under numpy's
  broadcasting: the shapes must agree unless one of n, k is 1.
\<close>

definition np_broadcast :: "('a \<Rightarrow> 'b \<Rightarrow> 'c) \<Rightarrow> 'a list \<Rightarrow> 'b list \<Rightarrow> error + 'c list" where
  "np_broadcast f xs ys =
     (if length xs = length ys then Inr (map2 f xs ys)
      else if length ys = 1 then Inr (map (\<lambda>x. f x (hd ys)) xs)
      else if length xs = 1 then Inr (map (\<lambda>y. f (hd xs) y) ys)
      else Inl ValueError)"

text \<open>
  \<open>abs(p - q)\<close> followed by \<open>max(-1)\<close> over the two coordinates. The subtraction is
  the float32 subtraction; \<open>abs\<close> and \<open>max\<close> are exact.
\<close>

definition abs_diff_max :: "env \<Rightarrow> point \<Rightarrow> point \<Rightarrow> real" where
  "abs_diff_max env p q =
     max \<bar>np_float32_sub env (fst p) (fst q)\<bar> \<bar>np_float32_sub env (snd p) (snd q)\<bar>"

text \<open>
  \<open>np.int32\<close> of a float truncates towards zero when the result is in the range of
  \<open>int32\<close>; otherwise the result is the platform's.
\<close>

definition np_int32 :: "env \<Rightarrow> real \<Rightarrow> int" where
  "np_int32 env x =
     (let t = (if 0 \<le> x then \<lfloor>x\<rfloor> else \<lceil>x\<rceil>)
      in if - 2147483648 \<le> t \<and> t \<le> 2147483647 then t else np_int32_overflow env x)"

subsection \<open>update\_tracks\<close>

text \<open>
  The loop over \<open>zip(self.tracks, points_new, point_valid)\<close>. A good track is appended to
  in place, loses its first point when it has become longer than \<open>track_len\<close>, and is
  added to \<open>new_tracks\<close>; then a circle is drawn at its new point on \<open>vis\<close>, and an
  exception of that call ends the loop. The other tracks are skipped. The result is the
  exception, if any, the store and \<open>new_tracks\<close>.
\<close>

fun update_loop ::
  "env \<Rightarrow> nat \<Rightarrow> (ref \<times> point \<times> bool) list \<Rightarrow> track list \<Rightarrow> ref list \<Rightarrow>
   error option \<times> track list \<times> ref list" where
  "update_loop env n [] h new_tracks = (None, h, new_tracks)"
| "update_loop env n ((track, p, good_flag) # rest) h new_tracks =
     (if \<not> good_flag then update_loop env n rest h new_tracks
      else
        let h1 = h[track := h ! track @ [p]];
            h2 = (if length (h1 ! track) > n then h1[track := tl (h1 ! track)] else h1)
        in if cv2_circle_accepts env p then update_loop env n rest h2 (new_tracks @ [track])
           else (Some CvError, h2, new_tracks @ [track]))"

text \<open>
  An exception inside the loop leaves \<open>self.tracks\<close> as it was, with the track objects
  changed so far.
\<close>

definition update_tracks ::
  "env \<Rightarrow> 'img flow \<Rightarrow> 'img tracker \<Rightarrow> 'img \<Rightarrow> 'img outcome" where
  "update_tracks env lk s frame_gray =
     (case prev_gray s of
        None \<Rightarrow> Inl (AttributeError, s)
      | Some img_old \<Rightarrow>
          (case newest (heap s) (tracks s) of
             Inl e \<Rightarrow> Inl (e, s)
           | Inr points_pld \<Rightarrow>
               (case lk img_old frame_gray points_pld LK_PARAMS of
                  (points_new, _) \<Rightarrow>
                    (case lk frame_gray img_old points_new LK_PARAMS of
                       (points_old_inferred, _) \<Rightarrow>
                         (case np_broadcast (abs_diff_max env) points_pld points_old_inferred of
                            Inl e \<Rightarrow> Inl (e, s)
                          | Inr error_term \<Rightarrow>
                              let point_valid = map (\<lambda>e. e < 1) error_term
                              in (case update_loop env (track_len s)
                                         (zip (tracks s) (zip points_new point_valid))
                                         (heap s) [] of
                                    (None, h, new_tracks) \<Rightarrow>
                                      Inr (s\<lparr>tracks := new_tracks, heap := h\<rparr>)
                                  | (Some e, h, new_tracks) \<Rightarrow> Inl (e, s\<lparr>heap := h\<rparr>)))))))"

subsection \<open>get\_new\_tracks\<close>

fun draw_circles :: "mask \<Rightarrow> (int \<times> int) list \<Rightarrow> mask" where
  "draw_circles m [] = m"
| "draw_circles m (c # cs) = draw_circles (m @ [Circle c 5 0]) cs"

fun append_tracks :: "'img tracker \<Rightarrow> point list \<Rightarrow> 'img tracker" where
  "append_tracks s [] = s"
| "append_tracks s (p # ps) =
     append_tracks (s\<lparr>tracks := tracks s @ [length (heap s)], heap := heap s @ [[p]]\<rparr>) ps"

definition get_new_tracks ::
  "env \<Rightarrow> 'img detector \<Rightarrow> 'img tracker \<Rightarrow> 'img \<Rightarrow> 'img outcome" where
  "get_new_tracks env gftt s frame_gray =
     (case newest (heap s) (tracks s) of
        Inl e \<Rightarrow> Inl (e, s)
      | Inr pts \<Rightarrow>
          let mask = draw_circles [] (map (\<lambda>(x, y). (np_int32 env x, np_int32 env y)) pts)
          in (case gftt frame_gray mask FEATURE_PARAMS of
                None \<Rightarrow> Inr s
              | Some feature_points \<Rightarrow> Inr (append_tracks s feature_points)))"

subsection \<open>One iteration of run\<close>

definition run_iteration ::
  "env \<Rightarrow> 'img flow \<Rightarrow> 'img detector \<Rightarrow> 'img tracker \<Rightarrow> 'img \<Rightarrow> 'img outcome" where
  "run_iteration env lk gftt s frame_gray =
     (case (if length (tracks s) > 0 then update_tracks env lk s frame_gray else Inr s) of
        Inl x \<Rightarrow> Inl x
      | Inr s1 \<Rightarrow>
          if detect_interval s1 = 0 then Inl (ZeroDivisionError, s1)
          else
            (case (if frame_idx s1 mod detect_interval s1 = 0
                   then get_new_tracks env gftt s1 frame_gray else Inr s1) of
               Inl x \<Rightarrow> Inl x
             | Inr s2 \<Rightarrow> Inr (s2\<lparr>frame_idx := frame_idx s2 + 1, prev_gray := Some frame_gray\<rparr>)))"

text \<open>The loop of \<open>run\<close> over the frames read until it is left.\<close>

fun run ::
  "env \<Rightarrow> 'img flow \<Rightarrow> 'img detector \<Rightarrow> 'img tracker \<Rightarrow> 'img list \<Rightarrow> 'img outcome" where
  "run env lk gftt s [] = Inr s"
| "run env lk gftt s (frame_gray # frames) =
     (case run_iteration env lk gftt s frame_gray of
        Inl x \<Rightarrow> Inl x
      | Inr s' \<Rightarrow> run env lk gftt s' frames)"

subsection \<open>Notions used to state the properties\<close>

text \<open>The contents of the live tracks, in the order of \<open>self.tracks\<close>.\<close>

definition live :: "'img tracker \<Rightarrow> track list" where
  "live s = map (\<lambda>r. heap s ! r) (tracks s)"

text \<open>
  A state is well formed when every entry of \<open>self.tracks\<close> is a distinct, allocated,
  non-empty track object.
\<close>

definition well_formed :: "'img tracker \<Rightarrow> bool" where
  "well_formed s \<longleftrightarrow>
     distinct (tracks s) \<and> (\<forall>r \<in> set (tracks s). r < length (heap s) \<and> heap s ! r \<noteq> [])"

text \<open>A track after a point has been appended and the window bound \<open>n\<close> enforced.\<close>

definition extended :: "nat \<Rightarrow> track \<Rightarrow> point \<Rightarrow> track" where
  "extended n t p = (if length (t @ [p]) > n then tl (t @ [p]) else t @ [p])"

text \<open>
  The three point arrays of an extension pass from the previous image \<open>img_old\<close> to the
  image \<open>img_new\<close>: the newest point of every live track, the result of the forward
  flow on them, and the result of the backward flow on that.
\<close>

definition source_points :: "'img tracker \<Rightarrow> point list" where
  "source_points s = map (\<lambda>r. last (heap s ! r)) (tracks s)"

definition forward_points :: "'img flow \<Rightarrow> 'img tracker \<Rightarrow> 'img \<Rightarrow> 'img \<Rightarrow> point list" where
  "forward_points lk s img_old img_new = fst (lk img_old img_new (source_points s) LK_PARAMS)"

definition inferred_points :: "'img flow \<Rightarrow> 'img tracker \<Rightarrow> 'img \<Rightarrow> 'img \<Rightarrow> point list" where
  "inferred_points lk s img_old img_new =
     fst (lk img_new img_old (forward_points lk s img_old img_new) LK_PARAMS)"

definition forward_status :: "'img flow \<Rightarrow> 'img tracker \<Rightarrow> 'img \<Rightarrow> 'img \<Rightarrow> bool list" where
  "forward_status lk s img_old img_new =
     fst (snd (lk img_old img_new (source_points s) LK_PARAMS))"

definition backward_status :: "'img flow \<Rightarrow> 'img tracker \<Rightarrow> 'img \<Rightarrow> 'img \<Rightarrow> bool list" where
  "backward_status lk s img_old img_new =
     fst (snd (lk img_new img_old (forward_points lk s img_old img_new) LK_PARAMS))"

text \<open>
  The round trip error of the track at position \<open>i\<close>: the larger of the absolute values
  of the two float32 differences between its source point and its inferred source point.
\<close>

definition round_trip_error ::
  "env \<Rightarrow> 'img flow \<Rightarrow> 'img tracker \<Rightarrow> 'img \<Rightarrow> 'img \<Rightarrow> nat \<Rightarrow> real" where
  "round_trip_error env lk s img_old img_new i =
     max \<bar>np_float32_sub env (fst (source_points s ! i))
            (fst (inferred_points lk s img_old img_new ! i))\<bar>
         \<bar>np_float32_sub env (snd (source_points s ! i))
            (snd (inferred_points lk s img_old img_new ! i))\<bar>"

text \<open>The estimator returns one point for every point it is given.\<close>

definition flow_shape :: "'img flow \<Rightarrow> bool" where
  "flow_shape lk \<longleftrightarrow> (\<forall>a b ps P. length (fst (lk a b ps P)) = length ps)"

text \<open>The triples the loop of \<open>update_tracks\<close> runs over.\<close>

definition items ::
  "env \<Rightarrow> 'img flow \<Rightarrow> 'img tracker \<Rightarrow> 'img \<Rightarrow> 'img \<Rightarrow> (ref \<times> point \<times> bool) list" where
  "items env lk s img_old img_new =
     zip (tracks s)
       (zip (forward_points lk s img_old img_new)
          (map (\<lambda>e. e < 1)
             (map2 (abs_diff_max env) (source_points s)
                (inferred_points lk s img_old img_new))))"

text \<open>
  The pixel of a coordinate: the coordinate without its fractional part when it lies
  strictly between \<open>- 2147483649\<close> and \<open>2147483648\<close>, and what the platform makes of it
  otherwise.
\<close>

definition pixel :: "env \<Rightarrow> real \<Rightarrow> int" where
  "pixel env x =
     (if - 2147483649 < x \<and> x < 2147483648 then (if 0 \<le> x then \<lfloor>x\<rfloor> else \<lceil>x\<rceil>)
      else np_int32_overflow env x)"

text \<open>
  The mask of a seeding pass: one disc of radius 5 and colour 0 for every live track,
  centred at the pixel of its newest point.
\<close>

definition seed_mask :: "env \<Rightarrow> 'img tracker \<Rightarrow> mask" where
  "seed_mask env s =
     map (\<lambda>p. Circle (pixel env (fst p), pixel env (snd p)) 5 0) (source_points s)"

definition detected :: "env \<Rightarrow> 'img detector \<Rightarrow> 'img tracker \<Rightarrow> 'img \<Rightarrow> point list" where
  "detected env gftt s frame_gray =
     (case gftt frame_gray (seed_mask env s) FEATURE_PARAMS of None \<Rightarrow> [] | Some ps \<Rightarrow> ps)"

text \<open>Squared Euclidean distance, and lists of points that are pairwise \<open>d\<close> apart or more.\<close>

definition dist_sq :: "point \<Rightarrow> point \<Rightarrow> real" where
  "dist_sq p q = (fst p - fst q)\<^sup>2 + (snd p - snd q)\<^sup>2"

fun separated :: "real \<Rightarrow> point list \<Rightarrow> bool" where
  "separated d [] = True"
| "separated d (p # ps) = ((\<forall>q \<in> set ps. d\<^sup>2 \<le> dist_sq p q) \<and> separated d ps)"

text \<open>
  The detector, called with the parameters of the program, keeps the points it returns
  \<open>minDistance\<close> apart.
\<close>

definition detector_separates :: "'img detector \<Rightarrow> bool" where
  "detector_separates gftt \<longleftrightarrow>
     (\<forall>img m ps. gftt img m FEATURE_PARAMS = Some ps \<longrightarrow>
        separated (minDistance FEATURE_PARAMS) ps)"

text \<open>
  The states a tracker can be in: those that the methods of the class leave it in, whether
  they return or raise, from a fresh object and in any order.
\<close>

inductive reachable :: "env \<Rightarrow> 'img flow \<Rightarrow> 'img detector \<Rightarrow> 'img tracker \<Rightarrow> bool"
  for env :: env and lk :: "'img flow" and gftt :: "'img detector" where
  fresh: "reachable env lk gftt Tracker_init"
| updated:
    "reachable env lk gftt s \<Longrightarrow> update_tracks env lk s f = Inr s' \<Longrightarrow> reachable env lk gftt s'"
| seeded:
    "reachable env lk gftt s \<Longrightarrow> get_new_tracks env gftt s f = Inr s' \<Longrightarrow> reachable env lk gftt s'"
| iterated:
    "reachable env lk gftt s \<Longrightarrow> run_iteration env lk gftt s f = Inr s' \<Longrightarrow>
     reachable env lk gftt s'"
| update_raised:
    "reachable env lk gftt s \<Longrightarrow> update_tracks env lk s f = Inl (e, s') \<Longrightarrow>
     reachable env lk gftt s'"
| seeding_raised:
    "reachable env lk gftt s \<Longrightarrow> get_new_tracks env gftt s f = Inl (e, s') \<Longrightarrow>
     reachable env lk gftt s'"
| iteration_raised:
    "reachable env lk gftt s \<Longrightarrow> run_iteration env lk gftt s f = Inl (e, s') \<Longrightarrow>
     reachable env lk gftt s'"

text \<open>The invariant that the operations maintain.\<close>

definition tracker_inv :: "'img tracker \<Rightarrow> bool" where
  "tracker_inv s \<longleftrightarrow>
     well_formed s \<and> track_len s = 10 \<and> (\<forall>r \<in> set (tracks s). length (heap s ! r) \<le> 10)"

subsection \<open>Concrete environments, estimators, detectors and states\<close>

text \<open>
  Rounding to the nearest float32, ties to even: the exponent of \<open>x\<close> (at least \<open>-126\<close>,
  where the subnormal numbers begin), the spacing \<open>u\<close> of the float32 values at that
  exponent, and the multiple of \<open>u\<close> nearest to \<open>x\<close>. A result of \<open>2 ^ 128\<close> or more
  stands for an infinity.
\<close>

definition round_half_even :: "real \<Rightarrow> int" where
  "round_half_even r =
     (let f = \<lfloor>r\<rfloor>; d = r - of_int f
      in if d < 1 / 2 then f else if 1 / 2 < d then f + 1 else if even f then f else f + 1)"

definition float32_round :: "real \<Rightarrow> real" where
  "float32_round x =
     (if x = 0 then 0
      else
        let e = max (- 126) (if 1 \<le> \<bar>x\<bar> then bitlen \<lfloor>\<bar>x\<bar>\<rfloor> - 1
                             else - bitlen (\<lceil>1 / \<bar>x\<bar>\<rceil> - 1));
            u = power_int 2 (e - 23)
        in u * of_int (round_half_even (x / u)))"

text \<open>
  Two environments with IEEE subtraction and the x86 result of an out-of-range conversion:
  one whose \<open>cv2.circle\<close> converts float32 centres, one whose \<open>cv2.circle\<close> rejects them.
\<close>

definition env_lenient :: env where
  "env_lenient =
     \<lparr>np_float32_sub = (\<lambda>a b. float32_round (a - b)),
      np_int32_overflow = (\<lambda>x. - 2147483648),
      cv2_circle_accepts = (\<lambda>p. True)\<rparr>"

definition env_strict :: env where
  "env_strict =
     \<lparr>np_float32_sub = (\<lambda>a b. float32_round (a - b)),
      np_int32_overflow = (\<lambda>x. - 2147483648),
      cv2_circle_accepts = (\<lambda>p. False)\<rparr>"

text \<open>Images are numbered by the frame they come from.\<close>

text \<open>An estimator that loses every point: it leaves the points where they are and flags them all.\<close>

definition lk_lost :: "nat flow" where
  "lk_lost a b ps P = (ps, map (\<lambda>_. False) ps, map (\<lambda>_. 0) ps)"

text \<open>
  An estimator for a scene that contracts towards the line \<open>x = 0\<close>: forwards in time
  every abscissa is halved, backwards it is doubled.
\<close>

definition lk_halve :: "nat flow" where
  "lk_halve a b ps P =
     (if a < b then map (\<lambda>p. (fst p / 2, snd p)) ps else map (\<lambda>p. (2 * fst p, snd p)) ps,
      map (\<lambda>_. True) ps, map (\<lambda>_. 0) ps)"

text \<open>An estimator that tracks points left of \<open>x = 100\<close> exactly and sends the others far away.\<close>

definition lk_split :: "nat flow" where
  "lk_split a b ps P =
     (map (\<lambda>p. if fst p < 100 then p else (fst p + 50, snd p)) ps,
      map (\<lambda>_. True) ps, map (\<lambda>_. 0) ps)"

text \<open>
  An estimator that leaves every point in place forwards and, backwards, takes the points
  of abscissa 1 to the abscissa \<open>1 / 2 ^ 26\<close>: their exact round trip error is just below 1.
\<close>

definition lk_threshold :: "nat flow" where
  "lk_threshold a b ps P =
     (if a < b then ps else map (\<lambda>p. if fst p = 1 then (1 / 2 ^ 26, snd p) else p) ps,
      map (\<lambda>_. True) ps, map (\<lambda>_. 0) ps)"

text \<open>
  A detector that finds two corners on an unmasked image, one corner at \<open>(6, 0)\<close> on
  frame 5, and nothing otherwise.
\<close>

definition gftt_demo :: "nat detector" where
  "gftt_demo img m P =
     (if m = [] then Some [(0, 0), (8, 0)]
      else if img = 5 \<and> m = [Circle (0, 0) 5 0, Circle (0, 0) 5 0] then Some [(6, 0)]
      else None)"

text \<open>A detector that finds one corner when the mask has a single disc, at pixel \<open>(12, -3)\<close>.\<close>

definition gftt_grid :: "nat detector" where
  "gftt_grid img m P = (if m = [Circle (12, - 3) 5 0] then Some [(41 / 2, 1)] else None)"

definition one_track :: "nat tracker" where
  "one_track =
     \<lparr>track_len = 10, detect_interval = 5, tracks = [0], frame_idx = 1,
      prev_gray = Some 0, heap = [[(3, 4)]]\<rparr>"

text \<open>The state \<open>one_track\<close> with its track object at another address and another counter.\<close>

definition one_track_moved :: "nat tracker" where
  "one_track_moved =
     \<lparr>track_len = 10, detect_interval = 5, tracks = [1], frame_idx = 7,
      prev_gray = Some 0, heap = [[(9, 9)], [(3, 4)]]\<rparr>"

definition two_tracks :: "nat tracker" where
  "two_tracks =
     \<lparr>track_len = 10, detect_interval = 5, tracks = [0, 1], frame_idx = 1,
      prev_gray = Some 0, heap = [[(3, 4)], [(200, 4)]]\<rparr>"

text \<open>A state whose second track is at abscissa 1.\<close>

definition at_threshold :: "nat tracker" where
  "at_threshold =
     \<lparr>track_len = 10, detect_interval = 5, tracks = [0, 1], frame_idx = 1,
      prev_gray = Some 0, heap = [[(3, 4)], [(1, 0)]]\<rparr>"

definition full_track :: "nat tracker" where
  "full_track =
     \<lparr>track_len = 10, detect_interval = 5, tracks = [0], frame_idx = 10,
      prev_gray = Some 9,
      heap = [[(0, 0), (1, 0), (2, 0), (3, 0), (4, 0), (5, 0), (6, 0), (7, 0), (8, 0), (9, 0)]]\<rparr>"

text \<open>A state at a seeding frame whose track is off the pixel grid, left of and above the origin in part.\<close>

definition off_grid :: "nat tracker" where
  "off_grid =
     \<lparr>track_len = 10, detect_interval = 5, tracks = [0], frame_idx = 5,
      prev_gray = Some 4, heap = [[(25 / 2, - 15 / 4)]]\<rparr>"

text \<open>
  The states of a run with \<open>lk_halve\<close> and \<open>gftt_demo\<close> on the frames 0 to 5: after
  the seeding pass of frame 0, before frame 5, after the extension pass of frame 5 and
  after its seeding pass.
\<close>

definition first_seeds :: "nat tracker" where
  "first_seeds =
     \<lparr>track_len = 10, detect_interval = 5, tracks = [0, 1], frame_idx = 0,
      prev_gray = None, heap = [[(0, 0)], [(8, 0)]]\<rparr>"

definition before_frame5 :: "nat tracker" where
  "before_frame5 =
     \<lparr>track_len = 10, detect_interval = 5, tracks = [0, 1], frame_idx = 5,
      prev_gray = Some 4,
      heap = [[(0, 0), (0, 0), (0, 0), (0, 0), (0, 0)],
              [(8, 0), (4, 0), (2, 0), (1, 0), (1 / 2, 0)]]\<rparr>"

definition converged :: "nat tracker" where
  "converged =
     \<lparr>track_len = 10, detect_interval = 5, tracks = [0, 1], frame_idx = 5,
      prev_gray = Some 4,
      heap = [[(0, 0), (0, 0), (0, 0), (0, 0), (0, 0), (0, 0)],
              [(8, 0), (4, 0), (2, 0), (1, 0), (1 / 2, 0), (1 / 4, 0)]]\<rparr>"

definition crowded :: "nat tracker" where
  "crowded =
     \<lparr>track_len = 10, detect_interval = 5, tracks = [0, 1, 2], frame_idx = 5,
      prev_gray = Some 4,
      heap = [[(0, 0), (0, 0), (0, 0), (0, 0), (0, 0), (0, 0)],
              [(8, 0), (4, 0), (2, 0), (1, 0), (1 / 2, 0), (1 / 4, 0)],
              [(6, 0)]]\<rparr>"

section \<open>Auxiliary facts\<close>

subsection \<open>The loop of update\_tracks\<close>

lemma newest_ok:
  "\<forall>r \<in> set rs. h ! r \<noteq> [] \<Longrightarrow> newest h rs = Inr (map (\<lambda>r. last (h ! r)) rs)"
  by (induction rs) auto

lemma newest_Inr:
  "newest h rs = Inr ps \<Longrightarrow> ps = map (\<lambda>r. last (h ! r)) rs \<and> (\<forall>r \<in> set rs. h ! r \<noteq> [])"
  by (induction rs arbitrary: ps) (auto split: if_splits sum.splits)

lemma update_loop_tracks:
  "update_loop env n its h acc = (None, h', nt) \<Longrightarrow>
   nt = acc @ map fst (filter (\<lambda>(r, p, g). g) its)"
  by (induction env n its h acc rule: update_loop.induct)
    (auto simp: Let_def split: if_splits)

lemma update_loop_length:
  "update_loop env n its h acc = (e, h', nt) \<Longrightarrow> length h' = length h"
  by (induction env n its h acc rule: update_loop.induct)
    (auto simp: Let_def split: if_splits)

lemma update_loop_returns:
  "\<forall>x \<in> set its. snd (snd x) \<longrightarrow> cv2_circle_accepts env (fst (snd x)) \<Longrightarrow>
   fst (update_loop env n its h acc) = None"
  by (induction env n its h acc rule: update_loop.induct) (auto simp: Let_def)

lemma update_loop_raises:
  "update_loop env n its h acc = (Some e, h', nt) \<Longrightarrow> e = CvError"
  by (induction env n its h acc rule: update_loop.induct)
    (auto simp: Let_def split: if_splits)

lemma update_loop_other:
  "update_loop env n its h acc = (e, h', nt) \<Longrightarrow> \<forall>p. (a, p, True) \<notin> set its \<Longrightarrow>
   h' ! a = h ! a"
proof (induction env n its h acc rule: update_loop.induct)
  case (1 env n h new_tracks)
  then show ?case by simp
next
  case (2 env n track q good_flag rest h new_tracks)
  from "2.prems"(2) have rest: "\<forall>p. (a, p, True) \<notin> set rest" by auto
  show ?case
  proof (cases good_flag)
    case False
    with "2.IH"(1) "2.prems"(1) rest show ?thesis by simp
  next
    case True
    from "2.prems"(2) have "(a, q, True) \<notin> set ((track, q, good_flag) # rest)" by blast
    with True have ne: "a \<noteq> track" by auto
    let ?h1 = "h[track := h ! track @ [q]]"
    let ?h2 = "if length (?h1 ! track) > n then ?h1[track := tl (?h1 ! track)] else ?h1"
    have h2: "?h2 ! a = h ! a" using ne by simp
    show ?thesis
    proof (cases "cv2_circle_accepts env q")
      case acc: True
      from "2.prems"(1) True acc
      have "update_loop env n rest ?h2 (new_tracks @ [track]) = (e, h', nt)"
        by (simp add: Let_def)
      from "2.IH"(2)[OF _ refl refl acc this rest] True have "h' ! a = ?h2 ! a" by simp
      with h2 show ?thesis by simp
    next
      case False
      with "2.prems"(1) True have "h' = ?h2" by (simp add: Let_def)
      with h2 show ?thesis by simp
    qed
  qed
qed

lemma update_loop_any:
  "update_loop env n its h acc = (e, h', nt) \<Longrightarrow> distinct (map fst its) \<Longrightarrow>
   a < length h \<Longrightarrow>
   h' ! a = h ! a \<or> (\<exists>p. (a, p, True) \<in> set its \<and> h' ! a = extended n (h ! a) p)"
proof (induction env n its h acc rule: update_loop.induct)
  case (1 env n h new_tracks)
  then show ?case by simp
next
  case (2 env n track q good_flag rest h new_tracks)
  from "2.prems"(2) have d: "distinct (map fst rest)"
    and fresh: "\<forall>p g. (track, p, g) \<notin> set rest" by (auto simp: image_iff)
  show ?case
  proof (cases good_flag)
    case False
    with "2.IH"(1)[OF _ _ d "2.prems"(3)] "2.prems"(1) show ?thesis by auto
  next
    case True
    let ?h1 = "h[track := h ! track @ [q]]"
    let ?h2 = "if length (?h1 ! track) > n then ?h1[track := tl (?h1 ! track)] else ?h1"
    have l2: "a < length ?h2" using "2.prems"(3) by simp
    have same: "?h2 ! track = extended n (h ! track) q" if "track < length h"
      using that by (simp add: extended_def)
    have other: "?h2 ! a = h ! a" if "a \<noteq> track" using that by simp
    show ?thesis
    proof (cases "cv2_circle_accepts env q")
      case acc: True
      from "2.prems"(1) True acc
      have run: "update_loop env n rest ?h2 (new_tracks @ [track]) = (e, h', nt)"
        by (simp add: Let_def)
      show ?thesis
      proof (cases "a = track")
        case eq: True
        from fresh eq have "\<forall>p. (a, p, True) \<notin> set rest" by simp
        from update_loop_other[OF run this] same "2.prems"(3) eq
        have "h' ! a = extended n (h ! a) q" by simp
        with True eq show ?thesis by (intro disjI2 exI[of _ q]) simp
      next
        case ne: False
        from "2.IH"(2)[OF _ refl refl acc run d l2] True other[OF ne]
        show ?thesis by auto
      qed
    next
      case False
      with "2.prems"(1) True have h': "h' = ?h2" by (simp add: Let_def)
      show ?thesis
      proof (cases "a = track")
        case eq: True
        with same "2.prems"(3) h' have "h' ! a = extended n (h ! a) q" by simp
        with True eq show ?thesis by (intro disjI2 exI[of _ q]) simp
      next
        case ne: False
        with other h' show ?thesis by auto
      qed
    qed
  qed
qed

lemma update_loop_good:
  "update_loop env n its h acc = (None, h', nt) \<Longrightarrow> distinct (map fst its) \<Longrightarrow>
   (a, p, True) \<in> set its \<Longrightarrow> a < length h \<Longrightarrow> h' ! a = extended n (h ! a) p"
proof (induction env n its h acc rule: update_loop.induct)
  case (1 env n h new_tracks)
  then show ?case by simp
next
  case (2 env n track q good_flag rest h new_tracks)
  from "2.prems"(2) have d: "distinct (map fst rest)"
    and fresh: "\<forall>p g. (track, p, g) \<notin> set rest" by (auto simp: image_iff)
  show ?case
  proof (cases good_flag)
    case False
    with "2.prems"(3) have "(a, p, True) \<in> set rest" by auto
    with "2.IH"(1)[OF _ _ d] False "2.prems"(1,4) show ?thesis by simp
  next
    case True
    let ?h1 = "h[track := h ! track @ [q]]"
    let ?h2 = "if length (?h1 ! track) > n then ?h1[track := tl (?h1 ! track)] else ?h1"
    from "2.prems"(1) True have acc: "cv2_circle_accepts env q"
      by (auto simp: Let_def split: if_splits)
    with "2.prems"(1) True
    have run: "update_loop env n rest ?h2 (new_tracks @ [track]) = (None, h', nt)"
      by (simp add: Let_def)
    have l2: "a < length ?h2" using "2.prems"(4) by simp
    show ?thesis
    proof (cases "a = track")
      case eq: True
      with "2.prems"(3) fresh have qp: "q = p" by auto
      from fresh eq have "\<forall>p. (a, p, True) \<notin> set rest" by simp
      from update_loop_other[OF run this] "2.prems"(4) eq qp
      show ?thesis by (simp add: extended_def)
    next
      case ne: False
      with "2.prems"(3) have m: "(a, p, True) \<in> set rest" by auto
      from "2.IH"(2)[OF _ refl refl acc run d m l2] True ne show ?thesis by simp
    qed
  qed
qed

lemma kept_iff:
  "update_loop env n its h [] = (None, h', nt) \<Longrightarrow>
   r \<in> set nt \<longleftrightarrow> (\<exists>p. (r, p, True) \<in> set its)"
  by (drule update_loop_tracks) force

lemma kept_distinct:
  "update_loop env n its h [] = (None, h', nt) \<Longrightarrow> distinct (map fst its) \<Longrightarrow> distinct nt"
  by (drule update_loop_tracks) (simp add: distinct_map_filter)

subsection \<open>update\_tracks as its loop\<close>

lemma map_fst_zip_take:
  "map fst (zip xs ys) = take (length (zip xs ys)) xs"
  by (induction xs ys rule: list_induct2') auto

lemma update_tracks_cases:
  assumes "update_tracks env lk s f = out"
  shows "(\<exists>e. out = Inl (e, s)) \<or>
         (\<exists>its e h' nt. map fst its = take (length its) (tracks s) \<and>
            update_loop env (track_len s) its (heap s) [] = (e, h', nt) \<and>
            out = (case e of None \<Rightarrow> Inr (s\<lparr>tracks := nt, heap := h'\<rparr>)
                   | Some x \<Rightarrow> Inl (x, s\<lparr>heap := h'\<rparr>)))"
proof (cases "prev_gray s")
  case None
  with assms show ?thesis by (auto simp: update_tracks_def)
next
  case (Some img_old)
  show ?thesis
  proof (cases "newest (heap s) (tracks s)")
    case (Inl e)
    with assms Some show ?thesis by (auto simp: update_tracks_def)
  next
    case (Inr pld)
    obtain pn r1 where f1: "lk img_old f pld LK_PARAMS = (pn, r1)"
      by (cases "lk img_old f pld LK_PARAMS")
    obtain poi r2 where f2: "lk f img_old pn LK_PARAMS = (poi, r2)"
      by (cases "lk f img_old pn LK_PARAMS")
    show ?thesis
    proof (cases "np_broadcast (abs_diff_max env) pld poi")
      case (Inl e)
      with assms Some Inr f1 f2 show ?thesis by (auto simp: update_tracks_def)
    next
      case et: (Inr et)
      let ?its = "zip (tracks s) (zip pn (map (\<lambda>e. e < 1) et))"
      obtain e h' nt where u: "update_loop env (track_len s) ?its (heap s) [] = (e, h', nt)"
        by (cases "update_loop env (track_len s) ?its (heap s) []")
      from assms Some Inr f1 f2 et u
      have "out = (case e of None \<Rightarrow> Inr (s\<lparr>tracks := nt, heap := h'\<rparr>)
                   | Some x \<Rightarrow> Inl (x, s\<lparr>heap := h'\<rparr>))"
        by (auto simp: update_tracks_def Let_def split: option.splits)
      moreover have "map fst ?its = take (length ?its) (tracks s)" by (rule map_fst_zip_take)
      ultimately show ?thesis using u by blast
    qed
  qed
qed

lemma update_tracks_loop:
  assumes "update_tracks env lk s f = Inr s'"
  shows "\<exists>its h'. map fst its = take (length its) (tracks s) \<and>
           update_loop env (track_len s) its (heap s) [] = (None, h', tracks s') \<and>
           s' = s\<lparr>tracks := tracks s', heap := h'\<rparr>"
proof -
  from update_tracks_cases[OF assms] obtain its e h' nt where
    its: "map fst its = take (length its) (tracks s)"
    and u: "update_loop env (track_len s) its (heap s) [] = (e, h', nt)"
    and o: "Inr s' = (case e of None \<Rightarrow> Inr (s\<lparr>tracks := nt, heap := h'\<rparr>)
                      | Some x \<Rightarrow> Inl (x, s\<lparr>heap := h'\<rparr>))"
    by auto
  from o have e: "e = None" and s': "s' = s\<lparr>tracks := nt, heap := h'\<rparr>"
    by (auto split: option.splits)
  from s' have "tracks s' = nt" by simp
  with its u e s' show ?thesis by auto
qed

lemma update_tracks_raised:
  assumes "update_tracks env lk s f = Inl (e, s')"
  shows "s' = s \<or>
         (\<exists>its h' nt. map fst its = take (length its) (tracks s) \<and>
            update_loop env (track_len s) its (heap s) [] = (Some e, h', nt) \<and>
            s' = s\<lparr>heap := h'\<rparr>)"
proof -
  from update_tracks_cases[OF assms] show ?thesis
    by (elim disjE exE conjE) (auto split: option.splits)
qed

lemma abs_diff_max_eq:
  "abs_diff_max env p q =
     max \<bar>np_float32_sub env (fst p) (fst q)\<bar> \<bar>np_float32_sub env (snd p) (snd q)\<bar>"
  by (simp add: abs_diff_max_def)

lemma length_points:
  assumes "flow_shape lk"
  shows "length (forward_points lk s a b) = length (tracks s)"
    and "length (inferred_points lk s a b) = length (tracks s)"
  using assms
  by (simp_all add: flow_shape_def forward_points_def inferred_points_def source_points_def)

lemma length_items:
  "flow_shape lk \<Longrightarrow> length (items env lk s a b) = length (tracks s)"
  by (simp add: items_def length_points source_points_def)

lemma items_nth:
  assumes "flow_shape lk" "i < length (tracks s)"
  shows "items env lk s a b ! i =
           (tracks s ! i, forward_points lk s a b ! i, round_trip_error env lk s a b i < 1)"
  using assms
  by (simp add: items_def length_points source_points_def round_trip_error_def
      abs_diff_max_eq)

lemma map_fst_items:
  "flow_shape lk \<Longrightarrow> map fst (items env lk s a b) = tracks s"
  by (simp add: items_def length_points source_points_def)

lemma update_tracks_eq:
  assumes "well_formed s" "prev_gray s = Some img_old" "flow_shape lk"
  shows "update_tracks env lk s f =
           (case update_loop env (track_len s) (items env lk s img_old f) (heap s) [] of
              (None, h, new_tracks) \<Rightarrow> Inr (s\<lparr>tracks := new_tracks, heap := h\<rparr>)
            | (Some e, h, new_tracks) \<Rightarrow> Inl (e, s\<lparr>heap := h\<rparr>))"
proof -
  from assms(1) have n: "newest (heap s) (tracks s) = Inr (source_points s)"
    by (simp add: well_formed_def newest_ok source_points_def)
  have l: "length (source_points s) = length (inferred_points lk s img_old f)"
    using assms(3) by (simp add: length_points source_points_def)
  show ?thesis
    using assms(2) n l
    by (simp add: update_tracks_def np_broadcast_def items_def forward_points_def
          inferred_points_def Let_def split: prod.splits)
qed

lemma update_tracks_Inr:
  assumes "well_formed s" "prev_gray s = Some img_old" "flow_shape lk"
    and "update_tracks env lk s f = Inr s'"
  shows "update_loop env (track_len s) (items env lk s img_old f) (heap s) [] =
           (None, heap s', tracks s')"
proof -
  obtain e h nt where u:
    "update_loop env (track_len s) (items env lk s img_old f) (heap s) [] = (e, h, nt)"
    by (cases "update_loop env (track_len s) (items env lk s img_old f) (heap s) []")
  with update_tracks_eq[OF assms(1-3), of env f] assms(4) show ?thesis
    by (cases e) auto
qed

text \<open>What an extension pass does to the track at position \<open>i\<close> of the live list.\<close>

lemma item_mem_iff:
  assumes "flow_shape lk" "distinct (tracks s)" "i < length (tracks s)"
  shows "(tracks s ! i, p, g) \<in> set (items env lk s a b) \<longleftrightarrow>
           p = forward_points lk s a b ! i \<and> g = (round_trip_error env lk s a b i < 1)"
proof
  assume "(tracks s ! i, p, g) \<in> set (items env lk s a b)"
  then obtain j where j: "j < length (items env lk s a b)"
    "items env lk s a b ! j = (tracks s ! i, p, g)"
    by (auto simp: in_set_conv_nth)
  with assms(1) have jl: "j < length (tracks s)" by (simp add: length_items)
  with j assms(1) have "tracks s ! j = tracks s ! i" by (simp add: items_nth)
  with assms(2,3) jl have "j = i" by (simp add: nth_eq_iff_index_eq)
  with j assms(1,3)
  show "p = forward_points lk s a b ! i \<and> g = (round_trip_error env lk s a b i < 1)"
    by (simp add: items_nth)
next
  assume "p = forward_points lk s a b ! i \<and> g = (round_trip_error env lk s a b i < 1)"
  with assms(1,3) have "items env lk s a b ! i = (tracks s ! i, p, g)" by (simp add: items_nth)
  moreover from assms(1,3) have "i < length (items env lk s a b)" by (simp add: length_items)
  ultimately show "(tracks s ! i, p, g) \<in> set (items env lk s a b)"
    by (metis nth_mem)
qed

lemma update_tracks_at:
  assumes "well_formed s" "prev_gray s = Some img_old" "flow_shape lk"
    and "update_tracks env lk s f = Inr s'" "i < length (tracks s)"
  shows "tracks s ! i \<in> set (tracks s') \<longleftrightarrow> round_trip_error env lk s img_old f i < 1"
    and "round_trip_error env lk s img_old f i < 1 \<Longrightarrow>
           heap s' ! (tracks s ! i) =
             extended (track_len s) (heap s ! (tracks s ! i))
               (forward_points lk s img_old f ! i)"
    and "\<not> round_trip_error env lk s img_old f i < 1 \<Longrightarrow>
           heap s' ! (tracks s ! i) = heap s ! (tracks s ! i)"
proof -
  let ?its = "items env lk s img_old f"
  note u = update_tracks_Inr[OF assms(1-4)]
  from assms(1) have d: "distinct (tracks s)" by (simp add: well_formed_def)
  from assms(1,5) have lt: "tracks s ! i < length (heap s)" by (simp add: well_formed_def)
  note mem = item_mem_iff[OF assms(3) d assms(5), of _ _ env img_old f]
  show "tracks s ! i \<in> set (tracks s') \<longleftrightarrow> round_trip_error env lk s img_old f i < 1"
    unfolding kept_iff[OF u] mem by auto
  { assume g: "round_trip_error env lk s img_old f i < 1"
    have m: "(tracks s ! i, forward_points lk s img_old f ! i, True) \<in> set ?its"
      unfolding mem using g by simp
    have "distinct (map fst ?its)" using d assms(3) by (simp add: map_fst_items)
    from update_loop_good[OF u this m lt]
    show "heap s' ! (tracks s ! i) =
        extended (track_len s) (heap s ! (tracks s ! i)) (forward_points lk s img_old f ! i)" . }
  { assume g: "\<not> round_trip_error env lk s img_old f i < 1"
    have "\<forall>p. (tracks s ! i, p, True) \<notin> set ?its" unfolding mem using g by simp
    from update_loop_other[OF u this]
    show "heap s' ! (tracks s ! i) = heap s ! (tracks s ! i)" . }
qed

lemma update_tracks_subset:
  assumes "update_tracks env lk s f = Inr s'"
  shows "set (tracks s') \<subseteq> set (tracks s)"
proof -
  from update_tracks_loop[OF assms] obtain its h' where
    its: "map fst its = take (length its) (tracks s)"
    and u: "update_loop env (track_len s) its (heap s) [] = (None, h', tracks s')" by auto
  from update_loop_tracks[OF u]
  have "set (tracks s') \<subseteq> set (map fst its)" by auto
  also have "\<dots> \<subseteq> set (tracks s)" unfolding its by (rule set_take_subset)
  finally show ?thesis .
qed

lemma update_tracks_fields:
  assumes "update_tracks env lk s f = Inr s'"
  shows "frame_idx s' = frame_idx s" and "detect_interval s' = detect_interval s"
    and "track_len s' = track_len s" and "prev_gray s' = prev_gray s"
proof -
  from update_tracks_loop[OF assms] obtain h' where
    "s' = s\<lparr>tracks := tracks s', heap := h'\<rparr>" by auto
  then have "frame_idx s' = frame_idx (s\<lparr>tracks := tracks s', heap := h'\<rparr>)"
    "detect_interval s' = detect_interval (s\<lparr>tracks := tracks s', heap := h'\<rparr>)"
    "track_len s' = track_len (s\<lparr>tracks := tracks s', heap := h'\<rparr>)"
    "prev_gray s' = prev_gray (s\<lparr>tracks := tracks s', heap := h'\<rparr>)"
    by simp_all
  then show "frame_idx s' = frame_idx s" and "detect_interval s' = detect_interval s"
    and "track_len s' = track_len s" and "prev_gray s' = prev_gray s"
    by simp_all
qed

text \<open>The pass returns when the drawing call accepts the new point of every retained track.\<close>

lemma update_tracks_returns:
  assumes "well_formed s" "prev_gray s = Some img_old" "flow_shape lk"
    and "\<forall>i < length (tracks s). round_trip_error env lk s img_old f i < 1 \<longrightarrow>
           cv2_circle_accepts env (forward_points lk s img_old f ! i)"
  shows "\<exists>s'. update_tracks env lk s f = Inr s'"
proof -
  let ?its = "items env lk s img_old f"
  have "\<forall>x \<in> set ?its. snd (snd x) \<longrightarrow> cv2_circle_accepts env (fst (snd x))"
  proof
    fix x assume "x \<in> set ?its"
    then obtain j where j: "j < length ?its" "?its ! j = x" by (auto simp: in_set_conv_nth)
    with assms(3) have jl: "j < length (tracks s)" by (simp add: length_items)
    from items_nth[OF assms(3) jl, of env img_old f] j
    have "x = (tracks s ! j, forward_points lk s img_old f ! j,
               round_trip_error env lk s img_old f j < 1)" by simp
    with assms(4) jl show "snd (snd x) \<longrightarrow> cv2_circle_accepts env (fst (snd x))" by simp
  qed
  from update_loop_returns[OF this, of "track_len s" "heap s" "[]"]
  obtain h nt where "update_loop env (track_len s) ?its (heap s) [] = (None, h, nt)"
    by (cases "update_loop env (track_len s) ?its (heap s) []") auto
  with update_tracks_eq[OF assms(1-3), of env f] show ?thesis by simp
qed

lemma last_extended: "t \<noteq> [] \<Longrightarrow> last (extended n t p) = p"
  by (cases t) (auto simp: extended_def)

lemma extended_bounds:
  "t \<noteq> [] \<Longrightarrow> length t \<le> n \<Longrightarrow> extended n t p \<noteq> [] \<and> length (extended n t p) \<le> n"
  by (cases t) (auto simp: extended_def)

lemma extended_full:
  "t \<noteq> [] \<Longrightarrow> length t = n \<Longrightarrow> extended n t p = tl t @ [p]"
  by (cases t) (auto simp: extended_def)

lemma extended_drop:
  "t \<noteq> [] \<Longrightarrow> extended n t p = drop (if length t < n then 0 else 1) t @ [p]"
  by (cases t) (auto simp: extended_def drop_Suc)

subsection \<open>get\_new\_tracks in closed form\<close>

lemma np_int32_pixel: "np_int32 env x = pixel env x"
proof (cases "0 \<le> x")
  case True
  have "\<lfloor>x\<rfloor> \<le> 2147483647 \<longleftrightarrow> x < 2147483648"
    by (simp add: floor_le_iff)
  moreover from True have "- 2147483648 \<le> \<lfloor>x\<rfloor>" by (simp add: le_floor_iff)
  ultimately show ?thesis using True by (simp add: np_int32_def pixel_def Let_def)
next
  case False
  have "- 2147483648 \<le> \<lceil>x\<rceil> \<longleftrightarrow> - 2147483649 < x"
    by (simp add: le_ceiling_iff)
  moreover from False have "\<lceil>x\<rceil> \<le> 2147483647" by (simp add: ceiling_le_iff)
  ultimately show ?thesis using False by (simp add: np_int32_def pixel_def Let_def)
qed

lemma draw_circles_eq: "draw_circles m cs = m @ map (\<lambda>c. Circle c 5 0) cs"
  by (induction cs arbitrary: m) auto

lemma append_tracks_eq:
  "append_tracks s ps =
     s\<lparr>tracks := tracks s @ [length (heap s)..<length (heap s) + length ps],
       heap := heap s @ map (\<lambda>p. [p]) ps\<rparr>"
proof (induction ps arbitrary: s)
  case Nil
  show ?case by simp
next
  case (Cons p ps)
  have "[length (heap s)..<length (heap s) + length (p # ps)] =
          length (heap s) # [Suc (length (heap s))..<Suc (length (heap s)) + length ps]"
    by (subst upt_rec) simp
  then show ?case by (simp add: Cons.IH)
qed

lemma get_new_tracks_eq:
  assumes "get_new_tracks env gftt s f = Inr s'"
  shows "s' = s\<lparr>tracks := tracks s @
                   [length (heap s)..<length (heap s) + length (detected env gftt s f)],
                 heap := heap s @ map (\<lambda>p. [p]) (detected env gftt s f)\<rparr>"
proof -
  from assms obtain pts where n: "newest (heap s) (tracks s) = Inr pts"
    by (auto simp: get_new_tracks_def split: sum.splits)
  from newest_Inr[OF n] have pts: "pts = source_points s" by (simp add: source_points_def)
  have m: "draw_circles [] (map (\<lambda>(x, y). (np_int32 env x, np_int32 env y)) pts) =
             seed_mask env s"
    by (simp add: draw_circles_eq seed_mask_def pts case_prod_beta np_int32_pixel)
  show ?thesis
  proof (cases "gftt f (seed_mask env s) FEATURE_PARAMS")
    case None
    with assms n m show ?thesis by (simp add: get_new_tracks_def detected_def)
  next
    case (Some ps)
    with assms n m show ?thesis
      by (simp add: get_new_tracks_def detected_def append_tracks_eq)
  qed
qed

lemma get_new_tracks_raised:
  "get_new_tracks env gftt s f = Inl (e, s') \<Longrightarrow> s' = s"
  by (auto simp: get_new_tracks_def Let_def split: sum.splits option.splits)

lemma new_objects:
  "map (\<lambda>r. (h @ map (\<lambda>p. [p]) ps) ! r) [length h..<length h + length ps] = map (\<lambda>p. [p]) ps"
  by (rule nth_equalityI) (simp_all add: nth_append)

lemma old_objects:
  "\<forall>r \<in> set rs. r < length h \<Longrightarrow> map (\<lambda>r. (h @ h') ! r) rs = map (\<lambda>r. h ! r) rs"
  by (simp add: nth_append)

lemma source_points_live: "source_points s = map last (live s)"
  by (simp add: source_points_def live_def)

subsection \<open>The invariant of the tracker\<close>

lemma inv_init: "tracker_inv Tracker_init"
  by (simp add: tracker_inv_def well_formed_def Tracker_init_def)

lemma inv_update:
  assumes "tracker_inv s" and "update_tracks env lk s f = Inr s'"
  shows "tracker_inv s'"
proof -
  from update_tracks_loop[OF assms(2)] obtain its h' where
    its: "map fst its = take (length its) (tracks s)"
    and u: "update_loop env (track_len s) its (heap s) [] = (None, h', tracks s')"
    and s': "s' = s\<lparr>tracks := tracks s', heap := h'\<rparr>" by auto
  from s' have "heap s' = heap (s\<lparr>tracks := tracks s', heap := h'\<rparr>)"
    and "track_len s' = track_len (s\<lparr>tracks := tracks s', heap := h'\<rparr>)" by simp_all
  then have hs: "heap s' = h'" and ts: "track_len s' = track_len s" by simp_all
  from assms(1) have wf: "well_formed s" and n: "track_len s = 10"
    and le: "\<forall>r \<in> set (tracks s). length (heap s ! r) \<le> 10"
    by (simp_all add: tracker_inv_def)
  from wf have d: "distinct (map fst its)" unfolding its by (simp add: well_formed_def)
  have sub: "set (map fst its) \<subseteq> set (tracks s)" unfolding its by (rule set_take_subset)
  have each: "r < length h' \<and> h' ! r \<noteq> [] \<and> length (h' ! r) \<le> 10"
    if r: "r \<in> set (tracks s')" for r
  proof -
    from r obtain p where p: "(r, p, True) \<in> set its" unfolding kept_iff[OF u] ..
    then have "r \<in> set (map fst its)" by force
    with sub have rs: "r \<in> set (tracks s)" by blast
    with wf have lt: "r < length (heap s)" and ne: "heap s ! r \<noteq> []"
      by (simp_all add: well_formed_def)
    from rs le have l10: "length (heap s ! r) \<le> track_len s" by (simp add: n)
    from update_loop_good[OF u d p lt]
    have "h' ! r = extended (track_len s) (heap s ! r) p" .
    with extended_bounds[OF ne l10, of p] lt update_loop_length[OF u] show ?thesis
      by (simp add: n)
  qed
  have "distinct (tracks s')" using u d by (rule kept_distinct)
  with each show ?thesis by (simp add: tracker_inv_def well_formed_def hs ts n)
qed

lemma inv_update_raised:
  assumes "tracker_inv s" and "update_tracks env lk s f = Inl (e, s')"
  shows "tracker_inv s'"
proof -
  from update_tracks_raised[OF assms(2)] show ?thesis
  proof
    assume "s' = s"
    with assms(1) show ?thesis by simp
  next
    assume "\<exists>its h' nt. map fst its = take (length its) (tracks s) \<and>
        update_loop env (track_len s) its (heap s) [] = (Some e, h', nt) \<and> s' = s\<lparr>heap := h'\<rparr>"
    then obtain its h' nt where its: "map fst its = take (length its) (tracks s)"
      and u: "update_loop env (track_len s) its (heap s) [] = (Some e, h', nt)"
      and s': "s' = s\<lparr>heap := h'\<rparr>" by auto
    from assms(1) have wf: "well_formed s" and n: "track_len s = 10"
      and le: "\<forall>r \<in> set (tracks s). length (heap s ! r) \<le> 10"
      by (simp_all add: tracker_inv_def)
    from wf have d: "distinct (map fst its)" unfolding its by (simp add: well_formed_def)
    have each: "r < length h' \<and> h' ! r \<noteq> [] \<and> length (h' ! r) \<le> 10"
      if rs: "r \<in> set (tracks s)" for r
    proof -
      from rs wf have lt: "r < length (heap s)" and ne: "heap s ! r \<noteq> []"
        by (simp_all add: well_formed_def)
      from rs le have l10: "length (heap s ! r) \<le> track_len s" by (simp add: n)
      from update_loop_any[OF u d lt]
      have "h' ! r = heap s ! r \<or> (\<exists>p. h' ! r = extended (track_len s) (heap s ! r) p)"
        by blast
      then show ?thesis
      proof
        assume "h' ! r = heap s ! r"
        with lt ne l10 update_loop_length[OF u] show ?thesis by (simp add: n)
      next
        assume "\<exists>p. h' ! r = extended (track_len s) (heap s ! r) p"
        then obtain p where "h' ! r = extended (track_len s) (heap s ! r) p" ..
        with extended_bounds[OF ne l10, of p] lt update_loop_length[OF u] show ?thesis
          by (simp add: n)
      qed
    qed
    from wf have "distinct (tracks s)" by (simp add: well_formed_def)
    with each show ?thesis by (simp add: tracker_inv_def well_formed_def s' n)
  qed
qed

lemma inv_seed:
  assumes "tracker_inv s" and "get_new_tracks env gftt s f = Inr s'"
  shows "tracker_inv s'"
proof -
  let ?new = "detected env gftt s f"
  let ?n = "length (heap s)"
  from get_new_tracks_eq[OF assms(2)]
  have s': "s' = s\<lparr>tracks := tracks s @ [?n..<?n + length ?new],
                    heap := heap s @ map (\<lambda>p. [p]) ?new\<rparr>" .
  from assms(1) have wf: "well_formed s" and n: "track_len s = 10"
    and le: "\<forall>r \<in> set (tracks s). length (heap s ! r) \<le> 10"
    by (simp_all add: tracker_inv_def)
  from wf have old: "\<forall>r \<in> set (tracks s). r < ?n" and d: "distinct (tracks s)"
    and ne: "\<forall>r \<in> set (tracks s). heap s ! r \<noteq> []"
    by (simp_all add: well_formed_def)
  from old d have dd: "distinct (tracks s @ [?n..<?n + length ?new])" by auto
  have each: "r < ?n + length ?new \<and> (heap s @ map (\<lambda>p. [p]) ?new) ! r \<noteq> [] \<and>
      length ((heap s @ map (\<lambda>p. [p]) ?new) ! r) \<le> 10"
    if "r \<in> set (tracks s @ [?n..<?n + length ?new])" for r
  proof (cases "r < ?n")
    case True
    with that have "r \<in> set (tracks s)" by auto
    with True ne le show ?thesis by (simp add: nth_append)
  next
    case False
    with that old have "?n \<le> r" "r < ?n + length ?new" by auto
    then show ?thesis by (simp add: nth_append)
  qed
  have "well_formed s'"
    unfolding well_formed_def s' using dd each by (simp del: set_append distinct_append)
  moreover have "\<forall>r \<in> set (tracks s'). length (heap s' ! r) \<le> 10"
    unfolding s' using each by (simp del: set_append)
  ultimately show ?thesis by (simp add: tracker_inv_def s' n)
qed

lemma inv_bookkeeping:
  "tracker_inv (s\<lparr>frame_idx := k, prev_gray := g\<rparr>) = tracker_inv s"
  by (simp add: tracker_inv_def well_formed_def)

lemma inv_iter:
  assumes "tracker_inv s" and "run_iteration env lk gftt s f = Inr s'"
  shows "tracker_inv s'"
proof -
  from assms(2) obtain s1 s2 where
    u: "(if length (tracks s) > 0 then update_tracks env lk s f else Inr s) = Inr s1"
    and g: "(if frame_idx s1 mod detect_interval s1 = 0 then get_new_tracks env gftt s1 f
             else Inr s1) = Inr s2"
    and e: "s' = s2\<lparr>frame_idx := frame_idx s2 + 1, prev_gray := Some f\<rparr>"
    by (auto simp: run_iteration_def split: sum.splits if_splits)
  from u assms(1) have "tracker_inv s1" by (auto split: if_splits intro: inv_update)
  with g have "tracker_inv s2" by (auto split: if_splits intro: inv_seed)
  then show ?thesis unfolding e inv_bookkeeping .
qed

lemma inv_iter_raised:
  assumes "tracker_inv s" and "run_iteration env lk gftt s f = Inl (e, s')"
  shows "tracker_inv s'"
proof (cases "if length (tracks s) > 0 then update_tracks env lk s f else Inr s")
  case (Inl x)
  with assms(2) have "x = (e, s')" by (simp add: run_iteration_def)
  with Inl assms(1) show ?thesis by (auto split: if_splits intro: inv_update_raised)
next
  case (Inr s1)
  with assms(1) have i1: "tracker_inv s1" by (auto split: if_splits intro: inv_update)
  show ?thesis
  proof (cases "detect_interval s1 = 0")
    case True
    with Inr assms(2) have "s' = s1" by (simp add: run_iteration_def)
    with i1 show ?thesis by simp
  next
    case False
    let ?g = "if frame_idx s1 mod detect_interval s1 = 0 then get_new_tracks env gftt s1 f
              else Inr s1"
    from Inr assms(2) False
    have "(case ?g of Inl x \<Rightarrow> Inl x
           | Inr s2 \<Rightarrow> Inr (s2\<lparr>frame_idx := frame_idx s2 + 1, prev_gray := Some f\<rparr>)) =
          Inl (e, s')"
      by (simp add: run_iteration_def)
    then have "?g = Inl (e, s')" by (cases ?g) simp_all
    then have "get_new_tracks env gftt s1 f = Inl (e, s')" by (simp split: if_splits)
    from get_new_tracks_raised[OF this] i1 show ?thesis by simp
  qed
qed

lemma reachable_inv: "reachable env lk gftt s \<Longrightarrow> tracker_inv s"
proof (induction rule: reachable.induct)
  case fresh
  show ?case by (rule inv_init)
next
  case (updated s f s')
  then show ?case by (auto intro: inv_update)
next
  case (seeded s f s')
  then show ?case by (auto intro: inv_seed)
next
  case (iterated s f s')
  then show ?case by (auto intro: inv_iter)
next
  case (update_raised s f e s')
  then show ?case by (auto intro: inv_update_raised)
next
  case (seeding_raised s f e s')
  then show ?case by (auto dest: get_new_tracks_raised)
next
  case (iteration_raised s f e s')
  then show ?case by (auto intro: inv_iter_raised)
qed

subsection \<open>The live tracks after an extension pass\<close>

lemma live_update:
  assumes "well_formed s" and "prev_gray s = Some img_old" and "flow_shape lk"
    and "update_tracks env lk s f = Inr s'"
  shows "live s' =
           map (\<lambda>(t, p, g). extended (track_len s) t p)
             (filter (\<lambda>(t, p, g). g)
                (zip (live s)
                   (zip (forward_points lk s img_old f)
                      (map (\<lambda>e. e < 1)
                         (map2 (abs_diff_max env) (source_points s)
                            (inferred_points lk s img_old f))))))"
proof -
  let ?its = "items env lk s img_old f"
  let ?n = "track_len s"
  let ?ys = "zip (forward_points lk s img_old f)
               (map (\<lambda>e. e < 1)
                  (map2 (abs_diff_max env) (source_points s) (inferred_points lk s img_old f)))"
  note u = update_tracks_Inr[OF assms]
  have d: "distinct (map fst ?its)"
    using assms(1,3) by (simp add: map_fst_items well_formed_def)
  have sub: "set (map fst ?its) \<subseteq> set (tracks s)"
    using assms(3) by (simp add: map_fst_items)
  have "live s' = map (\<lambda>x. heap s' ! fst x) (filter (\<lambda>(r, p, g). g) ?its)"
    by (simp add: live_def update_loop_tracks[OF u] comp_def)
  also have "\<dots> = map (\<lambda>(r, p, g). extended ?n (heap s ! r) p) (filter (\<lambda>(r, p, g). g) ?its)"
  proof (rule map_cong[OF refl])
    fix x assume x: "x \<in> set (filter (\<lambda>(r, p, g). g) ?its)"
    obtain r p g where xe: "x = (r, p, g)" by (cases x)
    with x have m: "(r, p, True) \<in> set ?its" by auto
    then have "r \<in> set (map fst ?its)" by force
    with sub assms(1) have "r < length (heap s)" by (auto simp: well_formed_def)
    from update_loop_good[OF u d m this]
    show "heap s' ! fst x = (case x of (r, p, g) \<Rightarrow> extended ?n (heap s ! r) p)"
      by (simp add: xe)
  qed
  also have "\<dots> = map (\<lambda>(t, p, g). extended ?n t p)
                    (filter (\<lambda>(t, p, g). g) (map (\<lambda>(r, y). (heap s ! r, y)) ?its))"
    by (simp add: filter_map comp_def case_prod_unfold)
  also have "map (\<lambda>(r, y). (heap s ! r, y)) ?its = zip (live s) ?ys"
    by (simp add: items_def live_def zip_map1)
  finally show ?thesis .
qed

subsection \<open>The concrete environments, estimators and states\<close>

lemma float32_round_0: "float32_round 0 = 0"
  by (simp add: float32_round_def)

lemma float32_round_100: "float32_round (- 100) = - 100"
  by code_simp

lemma float32_round_below_1: "float32_round (67108863 / 67108864) = 1"
  by code_simp

lemmas env_simps = env_lenient_def env_strict_def float32_round_0 float32_round_100
  float32_round_below_1

lemmas run_simps = run_iteration_def update_tracks_def get_new_tracks_def np_broadcast_def
  abs_diff_max_def Let_def np_int32_def LK_PARAMS_def FEATURE_PARAMS_def env_simps

lemma flow_shape_lk_lost: "flow_shape lk_lost"
  by (simp add: flow_shape_def lk_lost_def)

lemma flow_shape_lk_split: "flow_shape lk_split"
  by (simp add: flow_shape_def lk_split_def)

lemma flow_shape_lk_halve: "flow_shape lk_halve"
  by (simp add: flow_shape_def lk_halve_def)

lemma flow_shape_lk_threshold: "flow_shape lk_threshold"
  by (simp add: flow_shape_def lk_threshold_def)

lemma well_formed_one_track: "well_formed one_track"
  by (simp add: well_formed_def one_track_def)

lemma well_formed_one_track_moved: "well_formed one_track_moved"
  by (simp add: well_formed_def one_track_moved_def)

lemma well_formed_two_tracks: "well_formed two_tracks"
  by (simp add: well_formed_def two_tracks_def)

lemma well_formed_at_threshold: "well_formed at_threshold"
  by (simp add: well_formed_def at_threshold_def)

lemma well_formed_full_track: "well_formed full_track"
  by (simp add: well_formed_def full_track_def)

lemma well_formed_converged: "well_formed converged"
  by (simp add: well_formed_def converged_def)

lemma update_one_track_lost:
  "update_tracks env_lenient lk_lost one_track 1 =
     Inr (one_track\<lparr>tracks := [0], heap := [[(3, 4), (3, 4)]]\<rparr>)"
  by (simp add: run_simps one_track_def lk_lost_def)

lemma update_one_track_moved_lost:
  "update_tracks env_lenient lk_lost one_track_moved 1 =
     Inr (one_track_moved\<lparr>tracks := [1], heap := [[(9, 9)], [(3, 4), (3, 4)]]\<rparr>)"
  by (simp add: run_simps one_track_moved_def lk_lost_def)

lemma update_two_tracks_split:
  "update_tracks env_lenient lk_split two_tracks 1 =
     Inr (two_tracks\<lparr>tracks := [0], heap := [[(3, 4), (3, 4)], [(200, 4)]]\<rparr>)"
  by (simp add: run_simps two_tracks_def lk_split_def)

lemma update_at_threshold:
  "update_tracks env_lenient lk_threshold at_threshold 1 =
     Inr (at_threshold\<lparr>tracks := [0], heap := [[(3, 4), (3, 4)], [(1, 0)]]\<rparr>)"
  by (simp add: run_simps at_threshold_def lk_threshold_def)

lemma update_full_track_halve:
  "update_tracks env_lenient lk_halve full_track 10 =
     Inr (full_track\<lparr>tracks := [0],
            heap := [[(1, 0), (2, 0), (3, 0), (4, 0), (5, 0), (6, 0), (7, 0), (8, 0), (9, 0),
                      (9 / 2, 0)]]\<rparr>)"
  by (simp add: run_simps full_track_def lk_halve_def)

lemma detector_separates_demo: "detector_separates gftt_demo"
  by (auto simp: detector_separates_def gftt_demo_def FEATURE_PARAMS_def dist_sq_def
      split: if_splits)

lemma seed_fresh: "get_new_tracks env_lenient gftt_demo Tracker_init 0 = Inr first_seeds"
  by (simp add: run_simps Tracker_init_def gftt_demo_def first_seeds_def)

lemma reachable_first_seeds: "reachable env_lenient lk_halve gftt_demo first_seeds"
  using reachable.fresh seed_fresh by (rule reachable.seeded)

lemma seed_converged: "get_new_tracks env_lenient gftt_demo converged 5 = Inr crowded"
  by (simp add: run_simps gftt_demo_def converged_def crowded_def)

lemma update_off_grid:
  "update_tracks env_lenient lk_lost off_grid 5 =
     Inr (off_grid\<lparr>tracks := [0], heap := [[(25 / 2, - 15 / 4), (25 / 2, - 15 / 4)]]\<rparr>)"
  by (simp add: run_simps off_grid_def lk_lost_def)

lemma iterate_off_grid:
  "run_iteration env_lenient lk_lost gftt_grid off_grid 5 =
     Inr (off_grid\<lparr>tracks := [0, 1],
            heap := [[(25 / 2, - 15 / 4), (25 / 2, - 15 / 4)], [(41 / 2, 1)]],
            frame_idx := 6, prev_gray := Some 5\<rparr>)"
  by (simp add: run_simps off_grid_def lk_lost_def gftt_grid_def)

section \<open>The properties\<close>

text \<open>
  C1 (as amended). In an extension pass that returns, the track at position \<open>i\<close> is
  retained exactly when the larger of the absolute values of the two float32 differences
  between its source point and the backward-inferred source point is strictly below 1; a
  retained track ends with its new point. The status flags of the two flow steps play no
  part.
\<close>

theorem update_tracks_retains_iff_round_trip:
  assumes "well_formed s" and "prev_gray s = Some img_old" and "flow_shape lk"
    and "update_tracks env lk s f = Inr s'" and "i < length (tracks s)"
  shows "(tracks s ! i \<in> set (tracks s')) =
           (max \<bar>np_float32_sub env (fst (source_points s ! i))
                   (fst (inferred_points lk s img_old f ! i))\<bar>
                \<bar>np_float32_sub env (snd (source_points s ! i))
                   (snd (inferred_points lk s img_old f ! i))\<bar> < 1) \<and>
         (tracks s ! i \<in> set (tracks s') \<longrightarrow>
            last (heap s' ! (tracks s ! i)) = forward_points lk s img_old f ! i)"
proof -
  from assms(1,5) have ne: "heap s ! (tracks s ! i) \<noteq> []" by (simp add: well_formed_def)
  from update_tracks_at[OF assms] ne show ?thesis
    by (simp add: last_extended round_trip_error_def)
qed

theorem update_tracks_retains_iff_round_trip_witness:
  "well_formed at_threshold \<and> prev_gray at_threshold = Some 0 \<and> flow_shape lk_threshold \<and>
   update_tracks env_lenient lk_threshold at_threshold 1 =
     Inr (at_threshold\<lparr>tracks := [0], heap := [[(3, 4), (3, 4)], [(1, 0)]]\<rparr>) \<and>
   1 < length (tracks at_threshold) \<and>
   source_points at_threshold ! 1 = (1, 0) \<and>
   inferred_points lk_threshold at_threshold 0 1 ! 1 = (1 / 2 ^ 26, 0) \<and>
   \<bar>1 - 1 / 2 ^ 26\<bar> < (1 :: real) \<and>
   np_float32_sub env_lenient 1 (1 / 2 ^ 26) = 1 \<and>
   tracks at_threshold ! 1 \<notin>
     set (tracks (at_threshold\<lparr>tracks := [0], heap := [[(3, 4), (3, 4)], [(1, 0)]]\<rparr>))"
proof -
  have p: "prev_gray at_threshold = Some 0" and l: "1 < length (tracks at_threshold)"
    by (simp_all add: at_threshold_def)
  have src: "source_points at_threshold ! 1 = (1, 0)"
    and inf: "inferred_points lk_threshold at_threshold 0 1 ! 1 = (1 / 2 ^ 26, 0)"
    by (simp_all add: source_points_def inferred_points_def forward_points_def
        lk_threshold_def at_threshold_def)
  have sub: "np_float32_sub env_lenient 1 (1 / 2 ^ 26) = 1" by (simp add: env_simps)
  have zero: "np_float32_sub env_lenient 0 0 = 0" by (simp add: env_simps)
  have ex: "\<bar>1 - 1 / 2 ^ 26\<bar> < (1 :: real)" by simp
  note c = update_tracks_retains_iff_round_trip
    [OF well_formed_at_threshold p flow_shape_lk_threshold update_at_threshold l,
      unfolded src inf fst_conv snd_conv sub zero]
  from c have "tracks at_threshold ! 1 \<notin>
     set (tracks (at_threshold\<lparr>tracks := [0], heap := [[(3, 4), (3, 4)], [(1, 0)]]\<rparr>))"
    by simp
  with well_formed_at_threshold p flow_shape_lk_threshold update_at_threshold l src inf ex sub
  show ?thesis by blast
qed

text \<open>
  C1 as stated fails: with an estimator that reports every point lost in both directions
  and leaves it in place, the round trip error is 0 and the track is retained and extended.
\<close>

theorem retained_though_flow_invalid:
  "forward_status lk_lost one_track 0 1 = [False] \<and>
   backward_status lk_lost one_track 0 1 = [False] \<and>
   update_tracks env_lenient lk_lost one_track 1 =
     Inr (one_track\<lparr>tracks := [0], heap := [[(3, 4), (3, 4)]]\<rparr>)"
  by (simp add: run_simps one_track_def lk_lost_def forward_status_def backward_status_def
      forward_points_def source_points_def)

text \<open>
  C2 (as amended). Immediately after a seeding pass the newest points of the tracks it has
  added are the points the detector returned for the mask of the live tracks, and they are
  pairwise 7 pixels apart or more when the detector keeps its minimum distance. Nothing is
  promised about the distance between two pre-existing tracks, or between a pre-existing
  track and a new one: the mask only excludes discs of radius 5.
\<close>

theorem seeds_separated:
  assumes "detector_separates gftt" and "get_new_tracks env gftt s f = Inr s'"
  shows "drop (length (tracks s)) (source_points s') = detected env gftt s f \<and>
         separated 7 (drop (length (tracks s)) (source_points s'))"
proof -
  let ?new = "detected env gftt s f"
  let ?n = "length (heap s)"
  from get_new_tracks_eq[OF assms(2)]
  have t: "tracks s' = tracks s @ [?n..<?n + length ?new]"
    and h: "heap s' = heap s @ map (\<lambda>p. [p]) ?new" by simp_all
  have "drop (length (tracks s)) (source_points s') =
          map last (map (\<lambda>r. heap s' ! r) [?n..<?n + length ?new])"
    by (simp add: source_points_def t)
  also have "\<dots> = map last (map (\<lambda>p. [p]) ?new)" unfolding h new_objects ..
  also have "\<dots> = ?new" by (simp add: comp_def)
  finally have d: "drop (length (tracks s)) (source_points s') = ?new" .
  have "separated 7 ?new"
  proof (cases "gftt f (seed_mask env s) FEATURE_PARAMS")
    case None
    then show ?thesis by (simp add: detected_def)
  next
    case (Some ps)
    with assms(1) have "separated (minDistance FEATURE_PARAMS) ps"
      by (auto simp: detector_separates_def)
    with Some show ?thesis by (simp add: detected_def FEATURE_PARAMS_def)
  qed
  with d show ?thesis by simp
qed

theorem seeds_separated_witness:
  "detector_separates gftt_demo \<and>
   get_new_tracks env_lenient gftt_demo Tracker_init 0 = Inr first_seeds \<and>
   drop (length (tracks (Tracker_init :: nat tracker))) (source_points first_seeds) =
     [(0, 0), (8, 0)] \<and>
   separated 7 (drop (length (tracks (Tracker_init :: nat tracker))) (source_points first_seeds))"
proof -
  have d: "detected env_lenient gftt_demo Tracker_init 0 = [(0, 0), (8, 0)]"
    by (simp add: detected_def seed_mask_def source_points_def Tracker_init_def gftt_demo_def)
  note c = seeds_separated[OF detector_separates_demo seed_fresh, unfolded d]
  show ?thesis using detector_separates_demo seed_fresh c by blast
qed

text \<open>
  C2 as stated fails. Two corners seeded 8 pixels apart on frame 0 move towards each other;
  the extension pass of frame 5 leaves them a quarter of a pixel apart, and the seeding
  pass of the same frame adds a corner 6 pixels from the first, outside the discs of
  radius 5 of the mask.
\<close>

theorem seeding_leaves_close_points:
  "detector_separates gftt_demo \<and>
   run env_lenient lk_halve gftt_demo Tracker_init [0, 1, 2, 3, 4] = Inr before_frame5 \<and>
   update_tracks env_lenient lk_halve before_frame5 5 = Inr converged \<and>
   frame_idx converged mod detect_interval converged = 0 \<and>
   get_new_tracks env_lenient gftt_demo converged 5 = Inr crowded \<and>
   source_points crowded = [(0, 0), (1 / 4, 0), (6, 0)] \<and>
   dist_sq (0, 0) (1 / 4, 0) < 7\<^sup>2 \<and> dist_sq (0, 0) (6, 0) < 7\<^sup>2 \<and>
   \<not> separated 7 (source_points crowded)"
proof -
  have "run env_lenient lk_halve gftt_demo Tracker_init [0, 1, 2, 3, 4] = Inr before_frame5"
    by (simp add: run_simps Tracker_init_def lk_halve_def gftt_demo_def before_frame5_def)
  moreover have "update_tracks env_lenient lk_halve before_frame5 5 = Inr converged"
    by (simp add: run_simps lk_halve_def before_frame5_def converged_def)
  moreover have "get_new_tracks env_lenient gftt_demo converged 5 = Inr crowded"
    by (simp add: run_simps gftt_demo_def converged_def crowded_def)
  moreover have "source_points crowded = [(0, 0), (1 / 4, 0), (6, 0)]"
    by (simp add: source_points_def crowded_def)
  moreover have "frame_idx converged mod detect_interval converged = 0"
    by (simp add: converged_def)
  moreover have "dist_sq (0, 0) (1 / 4, 0) < 7\<^sup>2" "dist_sq (0, 0) (6, 0) < 7\<^sup>2"
    by (simp_all add: dist_sq_def power2_eq_square)
  ultimately show ?thesis
    using detector_separates_demo by (simp add: dist_sq_def power2_eq_square)
qed

text \<open>
  C3. In every state that the operations of a tracker can leave it in from a fresh one,
  every live track has at least 1 and at most 10 points.
\<close>

theorem track_length_bounds:
  assumes "reachable env lk gftt s" and "t \<in> set (live s)"
  shows "1 \<le> length t \<and> length t \<le> 10"
proof -
  from assms(2) obtain r where r: "r \<in> set (tracks s)" and t: "t = heap s ! r"
    by (auto simp: live_def)
  from reachable_inv[OF assms(1)] r have "heap s ! r \<noteq> []" "length (heap s ! r) \<le> 10"
    by (simp_all add: tracker_inv_def well_formed_def)
  then show ?thesis unfolding t by (cases "heap s ! r") simp_all
qed

theorem track_length_bounds_witness:
  "reachable env_lenient lk_halve gftt_demo first_seeds \<and>
   [(8, 0)] \<in> set (live first_seeds) \<and>
   1 \<le> length [(8 :: real, 0 :: real)] \<and> length [(8 :: real, 0 :: real)] \<le> 10"
proof -
  have m: "[(8, 0)] \<in> set (live first_seeds)" by (simp add: live_def first_seeds_def)
  from track_length_bounds[OF reachable_first_seeds m] reachable_first_seeds m
  show ?thesis by simp
qed

text \<open>
  C4. A track of 10 points that an extension pass retains loses its oldest point and gets
  the new point at its end: it has 10 points again, the old ones in their order.
\<close>

theorem full_track_slides:
  assumes "well_formed s" and "prev_gray s = Some img_old" and "flow_shape lk"
    and "update_tracks env lk s f = Inr s'" and "i < length (tracks s)"
    and "track_len s = 10" and "length (heap s ! (tracks s ! i)) = 10"
    and "tracks s ! i \<in> set (tracks s')"
  shows "heap s' ! (tracks s ! i) =
           tl (heap s ! (tracks s ! i)) @ [forward_points lk s img_old f ! i] \<and>
         length (heap s' ! (tracks s ! i)) = 10"
proof -
  let ?t = "heap s ! (tracks s ! i)"
  from assms(7) have ne: "?t \<noteq> []" by auto
  from update_tracks_at(1)[OF assms(1-5)] assms(8)
  have "round_trip_error env lk s img_old f i < 1" by simp
  from update_tracks_at(2)[OF assms(1-5) this]
  have "heap s' ! (tracks s ! i) = extended 10 ?t (forward_points lk s img_old f ! i)"
    by (simp add: assms(6))
  with extended_full[OF ne assms(7)] assms(7) show ?thesis by simp
qed

theorem full_track_slides_witness:
  "well_formed full_track \<and> prev_gray full_track = Some 9 \<and> flow_shape lk_halve \<and>
   update_tracks env_lenient lk_halve full_track 10 =
     Inr (full_track\<lparr>tracks := [0],
            heap := [[(1, 0), (2, 0), (3, 0), (4, 0), (5, 0), (6, 0), (7, 0), (8, 0), (9, 0),
                      (9 / 2, 0)]]\<rparr>) \<and>
   0 < length (tracks full_track) \<and> track_len full_track = 10 \<and>
   length (heap full_track ! (tracks full_track ! 0)) = 10 \<and>
   heap (full_track\<lparr>tracks := [0],
            heap := [[(1, 0), (2, 0), (3, 0), (4, 0), (5, 0), (6, 0), (7, 0), (8, 0), (9, 0),
                      (9 / 2, 0)]]\<rparr>) ! (tracks full_track ! 0) =
     tl (heap full_track ! (tracks full_track ! 0)) @ [forward_points lk_halve full_track 9 10 ! 0]"
proof -
  have p: "prev_gray full_track = Some 9" and l: "0 < length (tracks full_track)"
    and n: "track_len full_track = 10"
    and t: "length (heap full_track ! (tracks full_track ! 0)) = 10"
    by (simp_all add: full_track_def)
  have m: "tracks full_track ! 0 \<in> set (tracks (full_track\<lparr>tracks := [0],
            heap := [[(1, 0), (2, 0), (3, 0), (4, 0), (5, 0), (6, 0), (7, 0), (8, 0), (9, 0),
                      (9 / 2, 0)]]\<rparr>))"
    by (simp add: full_track_def)
  note c = full_track_slides[OF well_formed_full_track p flow_shape_lk_halve
      update_full_track_halve l n t m]
  show ?thesis
    using well_formed_full_track p flow_shape_lk_halve update_full_track_halve l n t c
    by blast
qed

text \<open>
  C5. The points given to the forward flow are the last points of the live tracks, in the
  order of the tracks. Every track that survives the pass is one of the old tracks, and its
  points are its old points without the first one if the window was full, followed by
  the point the forward flow returned at its position.
\<close>

theorem extension_keeps_order:
  assumes "well_formed s" and "prev_gray s = Some img_old" and "flow_shape lk"
    and "update_tracks env lk s f = Inr s'"
  shows "set (tracks s') \<subseteq> set (tracks s) \<and>
         (\<forall>i < length (tracks s). tracks s ! i \<in> set (tracks s') \<longrightarrow>
            heap s' ! (tracks s ! i) =
              drop (if length (heap s ! (tracks s ! i)) < track_len s then 0 else 1)
                (heap s ! (tracks s ! i)) @
              [fst (lk img_old f (map (\<lambda>r. last (heap s ! r)) (tracks s)) LK_PARAMS) ! i])"
proof -
  have "heap s' ! (tracks s ! i) =
          drop (if length (heap s ! (tracks s ! i)) < track_len s then 0 else 1)
            (heap s ! (tracks s ! i)) @
          [fst (lk img_old f (map (\<lambda>r. last (heap s ! r)) (tracks s)) LK_PARAMS) ! i]"
    if i: "i < length (tracks s)" and m: "tracks s ! i \<in> set (tracks s')" for i
  proof -
    from assms(1) i have ne: "heap s ! (tracks s ! i) \<noteq> []" by (simp add: well_formed_def)
    from update_tracks_at(1)[OF assms i] m
    have "round_trip_error env lk s img_old f i < 1" by simp
    from update_tracks_at(2)[OF assms i this] extended_drop[OF ne]
    show ?thesis by (simp add: forward_points_def source_points_def)
  qed
  with update_tracks_subset[OF assms(4)] show ?thesis by blast
qed

theorem extension_keeps_order_witness:
  "well_formed two_tracks \<and> prev_gray two_tracks = Some 0 \<and> flow_shape lk_split \<and>
   update_tracks env_lenient lk_split two_tracks 1 =
     Inr (two_tracks\<lparr>tracks := [0], heap := [[(3, 4), (3, 4)], [(200, 4)]]\<rparr>) \<and>
   heap (two_tracks\<lparr>tracks := [0], heap := [[(3, 4), (3, 4)], [(200, 4)]]\<rparr>) !
       (tracks two_tracks ! 0) =
     drop 0 (heap two_tracks ! (tracks two_tracks ! 0)) @ [(3, 4)]"
proof -
  have p: "prev_gray two_tracks = Some 0" by (simp add: two_tracks_def)
  note c = extension_keeps_order[OF well_formed_two_tracks p flow_shape_lk_split
      update_two_tracks_split]
  from c have "0 < length (tracks two_tracks) \<longrightarrow>
      tracks two_tracks ! 0 \<in>
        set (tracks (two_tracks\<lparr>tracks := [0], heap := [[(3, 4), (3, 4)], [(200, 4)]]\<rparr>)) \<longrightarrow>
      heap (two_tracks\<lparr>tracks := [0], heap := [[(3, 4), (3, 4)], [(200, 4)]]\<rparr>) !
          (tracks two_tracks ! 0) =
        drop (if length (heap two_tracks ! (tracks two_tracks ! 0)) < track_len two_tracks
              then 0 else 1) (heap two_tracks ! (tracks two_tracks ! 0)) @
        [fst (lk_split 0 1 (map (\<lambda>r. last (heap two_tracks ! r)) (tracks two_tracks))
           LK_PARAMS) ! 0]"
    by blast
  then have "heap (two_tracks\<lparr>tracks := [0], heap := [[(3, 4), (3, 4)], [(200, 4)]]\<rparr>) !
       (tracks two_tracks ! 0) =
     drop 0 (heap two_tracks ! (tracks two_tracks ! 0)) @ [(3, 4)]"
    by (simp add: two_tracks_def lk_split_def)
  with well_formed_two_tracks p flow_shape_lk_split update_two_tracks_split
  show ?thesis by blast
qed

text \<open>
  C6. In an iteration of \<open>run\<close> on a tracker whose detection interval is 5, let \<open>s1\<close> be
  the state after the extension step. When the frame counter is not a multiple of 5 the
  iteration adds no track. When it is, the detector is called with the mask that has, for
  every live track of \<open>s1\<close>, one disc of radius 5 and colour 0 centred at the newest point
  of the track with the fractional parts of its coordinates dropped (the platform's
  \<open>int32\<close> for a coordinate out of the \<open>int32\<close> range), and for every point the detector
  returns a new track holding that one point is added after the live tracks.
\<close>

theorem seeding_every_fifth_frame:
  assumes "detect_interval s = 5"
    and "(if tracks s = [] then Inr s else update_tracks env lk s f) = Inr s1"
    and "run_iteration env lk gftt s f = Inr s'"
  shows "let c = (\<lambda>x. if - 2147483649 < x \<and> x < 2147483648
                       then (if 0 \<le> x then \<lfloor>x\<rfloor> else \<lceil>x\<rceil>)
                       else np_int32_overflow env x);
             mask = map (\<lambda>t. Circle (c (fst (last t)), c (snd (last t))) 5 0) (live s1);
             seeds = (case gftt f mask FEATURE_PARAMS of None \<Rightarrow> [] | Some ps \<Rightarrow> ps)
         in (frame_idx s mod 5 \<noteq> 0 \<longrightarrow> tracks s' = tracks s1 \<and> heap s' = heap s1) \<and>
            (frame_idx s mod 5 = 0 \<longrightarrow>
               tracks s' = tracks s1 @ [length (heap s1)..<length (heap s1) + length seeds] \<and>
               heap s' = heap s1 @ map (\<lambda>p. [p]) seeds)"
proof -
  from assms(2) have u:
    "(if length (tracks s) > 0 then update_tracks env lk s f else Inr s) = Inr s1"
    by (cases "tracks s") simp_all
  from assms(2) have fi: "frame_idx s1 = frame_idx s" and di: "detect_interval s1 = 5"
    using assms(1) by (auto split: if_splits dest: update_tracks_fields)
  from assms(3) u di obtain s2 where
    g: "(if frame_idx s mod 5 = 0 then get_new_tracks env gftt s1 f else Inr s1) = Inr s2"
    and e: "s' = s2\<lparr>frame_idx := frame_idx s2 + 1, prev_gray := Some f\<rparr>"
    by (auto simp: run_iteration_def fi split: sum.splits if_splits)
  have a: "tracks s' = tracks s1 \<and> heap s' = heap s1" if "frame_idx s mod 5 \<noteq> 0"
    using g e that by simp
  have b: "tracks s' =
             tracks s1 @ [length (heap s1)..<length (heap s1) + length (detected env gftt s1 f)] \<and>
           heap s' = heap s1 @ map (\<lambda>p. [p]) (detected env gftt s1 f)"
    if "frame_idx s mod 5 = 0"
  proof -
    from g that have "get_new_tracks env gftt s1 f = Inr s2" by simp
    from get_new_tracks_eq[OF this] show ?thesis unfolding e by simp
  qed
  have c: "detected env gftt s1 f =
           (case gftt f
                   (map (\<lambda>t. Circle
                      (if - 2147483649 < fst (last t) \<and> fst (last t) < 2147483648
                       then (if 0 \<le> fst (last t) then \<lfloor>fst (last t)\<rfloor> else \<lceil>fst (last t)\<rceil>)
                       else np_int32_overflow env (fst (last t)),
                       if - 2147483649 < snd (last t) \<and> snd (last t) < 2147483648
                       then (if 0 \<le> snd (last t) then \<lfloor>snd (last t)\<rfloor> else \<lceil>snd (last t)\<rceil>)
                       else np_int32_overflow env (snd (last t))) 5 0)
                      (live s1)) FEATURE_PARAMS of
              None \<Rightarrow> [] | Some ps \<Rightarrow> ps)"
    by (simp add: detected_def seed_mask_def source_points_live comp_def pixel_def)
  from a b show ?thesis unfolding Let_def c[symmetric] by blast
qed

theorem seeding_every_fifth_frame_witness:
  "detect_interval off_grid = 5 \<and>
   (if tracks off_grid = [] then Inr off_grid
    else update_tracks env_lenient lk_lost off_grid 5) =
     Inr (off_grid\<lparr>tracks := [0], heap := [[(25 / 2, - 15 / 4), (25 / 2, - 15 / 4)]]\<rparr>) \<and>
   run_iteration env_lenient lk_lost gftt_grid off_grid 5 =
     Inr (off_grid\<lparr>tracks := [0, 1],
            heap := [[(25 / 2, - 15 / 4), (25 / 2, - 15 / 4)], [(41 / 2, 1)]],
            frame_idx := 6, prev_gray := Some 5\<rparr>) \<and>
   frame_idx off_grid mod 5 = 0 \<and>
   gftt_grid 5 [Circle (12, - 3) 5 0] FEATURE_PARAMS = Some [(41 / 2, 1)] \<and>
   heap (off_grid\<lparr>tracks := [0, 1],
            heap := [[(25 / 2, - 15 / 4), (25 / 2, - 15 / 4)], [(41 / 2, 1)]],
            frame_idx := 6, prev_gray := Some 5\<rparr>) =
     heap (off_grid\<lparr>tracks := [0], heap := [[(25 / 2, - 15 / 4), (25 / 2, - 15 / 4)]]\<rparr>) @
     map (\<lambda>p. [p]) [(41 / 2, 1)]"
proof -
  have d: "detect_interval off_grid = 5" and m: "frame_idx off_grid mod 5 = 0"
    by (simp_all add: off_grid_def)
  have u: "(if tracks off_grid = [] then Inr off_grid
            else update_tracks env_lenient lk_lost off_grid 5) =
     Inr (off_grid\<lparr>tracks := [0], heap := [[(25 / 2, - 15 / 4), (25 / 2, - 15 / 4)]]\<rparr>)"
    using update_off_grid by (simp add: off_grid_def)
  have g: "gftt_grid 5 [Circle (12, - 3) 5 0] FEATURE_PARAMS = Some [(41 / 2, 1)]"
    by (simp add: gftt_grid_def)
  note c = seeding_every_fifth_frame[OF d u iterate_off_grid]
  from c m have "heap (off_grid\<lparr>tracks := [0, 1],
            heap := [[(25 / 2, - 15 / 4), (25 / 2, - 15 / 4)], [(41 / 2, 1)]],
            frame_idx := 6, prev_gray := Some 5\<rparr>) =
     heap (off_grid\<lparr>tracks := [0], heap := [[(25 / 2, - 15 / 4), (25 / 2, - 15 / 4)]]\<rparr>) @
     map (\<lambda>p. [p]) [(41 / 2, 1)]"
    by (simp add: Let_def live_def g)
  with d u iterate_off_grid m g show ?thesis by blast
qed

text \<open>
  C7 (as amended). An extension pass on a well-formed state with a previous image returns
  whenever \<open>cv2.circle\<close> accepts the new point of every track that passes the check. When
  the pass returns, each track has been decided by its own float32 round trip error alone:
  a track whose error is not below 1 is absent from the new live list, and a track whose
  error is below 1 is in it, extended by its new point, whatever happens to the others.
  The status flags of the estimator play no part, and nothing is said of a pass in which
  \<open>cv2.circle\<close> raises.
\<close>

theorem returned_pass_drops_exactly_failing_tracks:
  assumes "well_formed s" and "prev_gray s = Some img_old" and "flow_shape lk"
  shows "((\<forall>i < length (tracks s). round_trip_error env lk s img_old f i < 1 \<longrightarrow>
             cv2_circle_accepts env (forward_points lk s img_old f ! i)) \<longrightarrow>
          (\<exists>s'. update_tracks env lk s f = Inr s')) \<and>
         (\<forall>s'. update_tracks env lk s f = Inr s' \<longrightarrow>
            set (tracks s') \<subseteq> set (tracks s) \<and>
            (\<forall>i < length (tracks s).
               if round_trip_error env lk s img_old f i < 1
               then tracks s ! i \<in> set (tracks s') \<and>
                    heap s' ! (tracks s ! i) =
                      extended (track_len s) (heap s ! (tracks s ! i))
                        (forward_points lk s img_old f ! i)
               else tracks s ! i \<notin> set (tracks s')))"
proof -
  have "set (tracks s') \<subseteq> set (tracks s) \<and>
        (\<forall>i < length (tracks s).
           if round_trip_error env lk s img_old f i < 1
           then tracks s ! i \<in> set (tracks s') \<and>
                heap s' ! (tracks s ! i) =
                  extended (track_len s) (heap s ! (tracks s ! i))
                    (forward_points lk s img_old f ! i)
           else tracks s ! i \<notin> set (tracks s'))"
    if s': "update_tracks env lk s f = Inr s'" for s'
  proof -
    have "if round_trip_error env lk s img_old f i < 1
          then tracks s ! i \<in> set (tracks s') \<and>
               heap s' ! (tracks s ! i) =
                 extended (track_len s) (heap s ! (tracks s ! i))
                   (forward_points lk s img_old f ! i)
          else tracks s ! i \<notin> set (tracks s')"
      if i: "i < length (tracks s)" for i
      using update_tracks_at(1,2)[OF assms s' i] by simp
    with update_tracks_subset[OF s'] show ?thesis by blast
  qed
  with update_tracks_returns[OF assms, of env f] show ?thesis by blast
qed

theorem returned_pass_drops_exactly_failing_tracks_witness:
  "well_formed two_tracks \<and> prev_gray two_tracks = Some 0 \<and> flow_shape lk_split \<and>
   round_trip_error env_lenient lk_split two_tracks 0 1 0 < 1 \<and>
   \<not> round_trip_error env_lenient lk_split two_tracks 0 1 1 < 1 \<and>
   update_tracks env_lenient lk_split two_tracks 1 =
     Inr (two_tracks\<lparr>tracks := [0], heap := [[(3, 4), (3, 4)], [(200, 4)]]\<rparr>) \<and>
   tracks two_tracks ! 1 \<notin>
     set (tracks (two_tracks\<lparr>tracks := [0], heap := [[(3, 4), (3, 4)], [(200, 4)]]\<rparr>)) \<and>
   heap (two_tracks\<lparr>tracks := [0], heap := [[(3, 4), (3, 4)], [(200, 4)]]\<rparr>) !
       (tracks two_tracks ! 0) =
     extended (track_len two_tracks) (heap two_tracks ! (tracks two_tracks ! 0))
       (forward_points lk_split two_tracks 0 1 ! 0)"
proof -
  let ?s' = "two_tracks\<lparr>tracks := [0], heap := [[(3, 4), (3, 4)], [(200, 4)]]\<rparr>"
  have p: "prev_gray two_tracks = Some 0" by (simp add: two_tracks_def)
  have r0: "round_trip_error env_lenient lk_split two_tracks 0 1 0 < 1"
    and r1: "\<not> round_trip_error env_lenient lk_split two_tracks 0 1 1 < 1"
    by (simp_all add: round_trip_error_def source_points_def inferred_points_def
        forward_points_def lk_split_def two_tracks_def env_simps)
  have l: "0 < length (tracks two_tracks)" "1 < length (tracks two_tracks)"
    by (simp_all add: two_tracks_def)
  from returned_pass_drops_exactly_failing_tracks
    [OF well_formed_two_tracks p flow_shape_lk_split, of env_lenient 1]
  have each: "\<forall>i < length (tracks two_tracks).
       if round_trip_error env_lenient lk_split two_tracks 0 1 i < 1
       then tracks two_tracks ! i \<in> set (tracks ?s') \<and>
            heap ?s' ! (tracks two_tracks ! i) =
              extended (track_len two_tracks) (heap two_tracks ! (tracks two_tracks ! i))
                (forward_points lk_split two_tracks 0 1 ! i)
       else tracks two_tracks ! i \<notin> set (tracks ?s')"
    using update_two_tracks_split by blast
  from each l(1) r0 have a: "heap ?s' ! (tracks two_tracks ! 0) =
      extended (track_len two_tracks) (heap two_tracks ! (tracks two_tracks ! 0))
        (forward_points lk_split two_tracks 0 1 ! 0)"
    by (metis (full_types))
  from each l(2) r1 have b: "tracks two_tracks ! 1 \<notin> set (tracks ?s')"
    by (metis (full_types))
  from a b well_formed_two_tracks p flow_shape_lk_split r0 r1 update_two_tracks_split
  show ?thesis by blast
qed

text \<open>
  C7 as stated fails, in two ways. A point that the estimator reports lost in both
  directions but leaves in place does not fail the check of the program: both tracks are
  retained. And where \<open>cv2.circle\<close> rejects float32 centres the pass raises at the first
  track that passes the check: the first track has been extended, the second, which fails
  the check, is still in the live list.
\<close>

theorem pass_keeps_flagged_and_aborts:
  "forward_status lk_lost two_tracks 0 1 = [False, False] \<and>
   backward_status lk_lost two_tracks 0 1 = [False, False] \<and>
   update_tracks env_lenient lk_lost two_tracks 1 =
     Inr (two_tracks\<lparr>tracks := [0, 1],
            heap := [[(3, 4), (3, 4)], [(200, 4), (200, 4)]]\<rparr>) \<and>
   round_trip_error env_strict lk_split two_tracks 0 1 0 < 1 \<and>
   \<not> round_trip_error env_strict lk_split two_tracks 0 1 1 < 1 \<and>
   update_tracks env_strict lk_split two_tracks 1 =
     Inl (CvError, two_tracks\<lparr>heap := [[(3, 4), (3, 4)], [(200, 4)]]\<rparr>) \<and>
   tracks (two_tracks\<lparr>heap := [[(3, 4), (3, 4)], [(200, 4)]]\<rparr>) = [0, 1]"
proof -
  have "forward_status lk_lost two_tracks 0 1 = [False, False]"
    "backward_status lk_lost two_tracks 0 1 = [False, False]"
    by (simp_all add: forward_status_def backward_status_def forward_points_def
        source_points_def lk_lost_def two_tracks_def)
  moreover have "update_tracks env_lenient lk_lost two_tracks 1 =
     Inr (two_tracks\<lparr>tracks := [0, 1],
            heap := [[(3, 4), (3, 4)], [(200, 4), (200, 4)]]\<rparr>)"
    by (simp add: run_simps two_tracks_def lk_lost_def)
  moreover have "round_trip_error env_strict lk_split two_tracks 0 1 0 < 1"
    "\<not> round_trip_error env_strict lk_split two_tracks 0 1 1 < 1"
    by (simp_all add: round_trip_error_def source_points_def inferred_points_def
        forward_points_def lk_split_def two_tracks_def env_simps)
  moreover have "update_tracks env_strict lk_split two_tracks 1 =
     Inl (CvError, two_tracks\<lparr>heap := [[(3, 4), (3, 4)], [(200, 4)]]\<rparr>)"
    by (simp add: run_simps two_tracks_def lk_split_def)
  moreover have "tracks (two_tracks\<lparr>heap := [[(3, 4), (3, 4)], [(200, 4)]]\<rparr>) = [0, 1]"
    by (simp add: two_tracks_def)
  ultimately show ?thesis by blast
qed

text \<open>
  C8. The live tracks after an extension pass are a function of the previous image, the
  current image, the window bound and the live tracks before it: two states that agree on
  these give the same live tracks, whatever their frame counters, their detection intervals
  and the addresses of their track objects. The estimator is a function of its arguments.
\<close>

theorem extension_deterministic:
  assumes "well_formed s1" and "well_formed s2" and "flow_shape lk"
    and "prev_gray s1 = prev_gray s2" and "live s1 = live s2"
    and "track_len s1 = track_len s2"
    and "update_tracks env lk s1 f = Inr s1'" and "update_tracks env lk s2 f = Inr s2'"
  shows "live s1' = live s2'"
proof -
  from assms(7) obtain img_old where p1: "prev_gray s1 = Some img_old"
    by (auto simp: update_tracks_def split: option.splits)
  with assms(4) have p2: "prev_gray s2 = Some img_old" by simp
  from assms(5) have src: "source_points s1 = source_points s2"
    by (simp add: source_points_live)
  then have fwd: "forward_points lk s1 img_old f = forward_points lk s2 img_old f"
    by (simp add: forward_points_def)
  then have inf: "inferred_points lk s1 img_old f = inferred_points lk s2 img_old f"
    by (simp add: inferred_points_def)
  show ?thesis
    unfolding live_update[OF assms(1) p1 assms(3,7)] live_update[OF assms(2) p2 assms(3,8)]
    by (simp only: src fwd inf assms(5,6))
qed

theorem extension_deterministic_witness:
  "well_formed one_track \<and> well_formed one_track_moved \<and> flow_shape lk_lost \<and>
   prev_gray one_track = prev_gray one_track_moved \<and> live one_track = live one_track_moved \<and>
   track_len one_track = track_len one_track_moved \<and>
   frame_idx one_track \<noteq> frame_idx one_track_moved \<and>
   tracks one_track \<noteq> tracks one_track_moved \<and>
   update_tracks env_lenient lk_lost one_track 1 =
     Inr (one_track\<lparr>tracks := [0], heap := [[(3, 4), (3, 4)]]\<rparr>) \<and>
   update_tracks env_lenient lk_lost one_track_moved 1 =
     Inr (one_track_moved\<lparr>tracks := [1], heap := [[(9, 9)], [(3, 4), (3, 4)]]\<rparr>) \<and>
   live (one_track\<lparr>tracks := [0], heap := [[(3, 4), (3, 4)]]\<rparr>) =
     live (one_track_moved\<lparr>tracks := [1], heap := [[(9, 9)], [(3, 4), (3, 4)]]\<rparr>)"
proof -
  have p: "prev_gray one_track = prev_gray one_track_moved"
    and l: "live one_track = live one_track_moved"
    and n: "track_len one_track = track_len one_track_moved"
    and d: "frame_idx one_track \<noteq> frame_idx one_track_moved"
      "tracks one_track \<noteq> tracks one_track_moved"
    by (simp_all add: one_track_def one_track_moved_def live_def)
  note c = extension_deterministic[OF well_formed_one_track well_formed_one_track_moved
      flow_shape_lk_lost p l n update_one_track_lost update_one_track_moved_lost]
  show ?thesis
    using well_formed_one_track well_formed_one_track_moved flow_shape_lk_lost p l n d
      update_one_track_lost update_one_track_moved_lost c
    by blast
qed

text \<open>
  C9. A seeding pass leaves every track that was live where it was in the live list and
  with the points it had; the new tracks come after them. When the detector returns no
  point the state is the one before the pass.
\<close>

theorem seeding_frame:
  assumes "well_formed s" and "get_new_tracks env gftt s f = Inr s'"
  shows "take (length (tracks s)) (tracks s') = tracks s \<and>
         take (length (live s)) (live s') = live s \<and>
         (detected env gftt s f = [] \<longrightarrow> s' = s)"
proof -
  let ?new = "detected env gftt s f"
  let ?n = "length (heap s)"
  note s' = get_new_tracks_eq[OF assms(2)]
  from assms(1) have old: "\<forall>r \<in> set (tracks s). r < ?n" by (simp add: well_formed_def)
  have t: "take (length (tracks s)) (tracks s') = tracks s" by (subst s') simp
  have "take (length (live s)) (live s') =
          map (\<lambda>r. heap s' ! r) (take (length (tracks s)) (tracks s'))"
    by (simp add: live_def take_map)
  also have "\<dots> = map (\<lambda>r. (heap s @ map (\<lambda>p. [p]) ?new) ! r) (tracks s)"
    unfolding t by (subst s') simp
  also have "\<dots> = live s" unfolding live_def using old by (rule old_objects)
  finally have l: "take (length (live s)) (live s') = live s" .
  have "s' = s" if "?new = []" by (subst s') (simp add: that)
  with t l show ?thesis by blast
qed

theorem seeding_frame_witness:
  "well_formed converged \<and> get_new_tracks env_lenient gftt_demo converged 5 = Inr crowded \<and>
   take (length (tracks converged)) (tracks crowded) = tracks converged \<and>
   take (length (live converged)) (live crowded) = live converged \<and>
   length (live crowded) = 3 \<and> length (live converged) = 2"
proof -
  note c = seeding_frame[OF well_formed_converged seed_converged]
  have "length (live crowded) = 3" "length (live converged) = 2"
    by (simp_all add: live_def crowded_def converged_def)
  with c well_formed_converged seed_converged show ?thesis by blast
qed

text \<open>
  C10. A track that fails the check of an extension pass is absent from the new live list,
  and its object is left as it was: nothing is appended to it or deleted from it.
\<close>

theorem dropped_track_untouched:
  assumes "well_formed s" and "prev_gray s = Some img_old" and "flow_shape lk"
    and "update_tracks env lk s f = Inr s'" and "i < length (tracks s)"
    and "\<not> round_trip_error env lk s img_old f i < 1"
  shows "tracks s ! i \<notin> set (tracks s') \<and> heap s' ! (tracks s ! i) = heap s ! (tracks s ! i)"
  using update_tracks_at(1)[OF assms(1-5)] update_tracks_at(3)[OF assms] assms(6) by simp

theorem dropped_track_untouched_witness:
  "well_formed two_tracks \<and> prev_gray two_tracks = Some 0 \<and> flow_shape lk_split \<and>
   update_tracks env_lenient lk_split two_tracks 1 =
     Inr (two_tracks\<lparr>tracks := [0], heap := [[(3, 4), (3, 4)], [(200, 4)]]\<rparr>) \<and>
   1 < length (tracks two_tracks) \<and>
   \<not> round_trip_error env_lenient lk_split two_tracks 0 1 1 < 1 \<and>
   tracks two_tracks ! 1 \<notin>
     set (tracks (two_tracks\<lparr>tracks := [0], heap := [[(3, 4), (3, 4)], [(200, 4)]]\<rparr>)) \<and>
   heap (two_tracks\<lparr>tracks := [0], heap := [[(3, 4), (3, 4)], [(200, 4)]]\<rparr>) !
       (tracks two_tracks ! 1) = heap two_tracks ! (tracks two_tracks ! 1)"
proof -
  have p: "prev_gray two_tracks = Some 0" and l: "1 < length (tracks two_tracks)"
    by (simp_all add: two_tracks_def)
  have r1: "\<not> round_trip_error env_lenient lk_split two_tracks 0 1 1 < 1"
    by (simp add: round_trip_error_def source_points_def inferred_points_def
        forward_points_def lk_split_def two_tracks_def env_simps)
  note c = dropped_track_untouched[OF well_formed_two_tracks p flow_shape_lk_split
      update_two_tracks_split l r1]
  show ?thesis
    using well_formed_two_tracks p flow_shape_lk_split update_two_tracks_split l r1 c by blast
qed

end
